theory Spec2Isabelle
  imports Main "HOL-Library.AList"
begin

section \<open>JavaScript strings\<close>

text \<open>
  A JavaScript string is a sequence of UTF-16 code units. The model uses \<^typ>\<open>string\<close>, whose
  characters are read as the code units U+0000 to U+00FF (Latin-1); \<open>length\<close> counts code
  units as \<open>String.prototype.length\<close> does. Strings with code units above U+00FF are outside
  the type. The character classes below are those of ECMAScript restricted to that range.
\<close>

definition code :: "char \<Rightarrow> nat" where
  "code c = of_char c"

text \<open>The regular-expression class \<open>\w\<close> (no \<open>i\<close> or \<open>u\<close> flag): \<open>[A-Za-z0-9_]\<close>.\<close>

definition isWordChar :: "char \<Rightarrow> bool" where
  "isWordChar c = ((48 \<le> code c \<and> code c \<le> 57) \<or> (65 \<le> code c \<and> code c \<le> 90)
                   \<or> code c = 95 \<or> (97 \<le> code c \<and> code c \<le> 122))"

text \<open>
  The class \<open>\s\<close>, which is also what \<open>trim\<close> removes: TAB, LF, VT, FF, CR, SPACE and
  NO-BREAK SPACE are its members below U+0100.
\<close>

definition isWhiteSpace :: "char \<Rightarrow> bool" where
  "isWhiteSpace c = (code c \<in> {9, 10, 11, 12, 13, 32, 160})"

text \<open>
  \<open>toLowerCase\<close>: \<open>A\<close>-\<open>Z\<close> and the Latin-1 capitals U+00C0-U+00DE (U+00D7, the
  multiplication sign, excepted) move up by 32; every other code unit is unchanged.
\<close>

definition toLowerChar :: "char \<Rightarrow> char" where
  "toLowerChar c =
     (if (65 \<le> code c \<and> code c \<le> 90) \<or> (192 \<le> code c \<and> code c \<le> 222 \<and> code c \<noteq> 215)
      then char_of (code c + 32) else c)"

definition toLowerCase :: "string \<Rightarrow> string" where
  "toLowerCase s = map toLowerChar s"

definition trim :: "string \<Rightarrow> string" where
  "trim s = rev (dropWhile isWhiteSpace (rev (dropWhile isWhiteSpace s)))"

text \<open>
  \<open>s.replace(/[C]/g, rep)\<close> for a character class \<open>C\<close>: every member of the class is
  replaced by \<open>rep\<close>.
\<close>

fun replaceEach :: "(char \<Rightarrow> bool) \<Rightarrow> string \<Rightarrow> string \<Rightarrow> string" where
  "replaceEach P rep [] = []"
| "replaceEach P rep (c # cs) =
     (if P c then rep @ replaceEach P rep cs else c # replaceEach P rep cs)"

text \<open>
  \<open>s.replace(/[C]+/g, rep)\<close>: every maximal run of members of the class is replaced by one
  \<open>rep\<close>.
\<close>

function replaceRuns :: "(char \<Rightarrow> bool) \<Rightarrow> string \<Rightarrow> string \<Rightarrow> string" where
  "replaceRuns P rep [] = []"
| "replaceRuns P rep (c # cs) =
     (if P c then rep @ replaceRuns P rep (dropWhile P cs) else c # replaceRuns P rep cs)"
  by pat_completeness auto
termination
  by (relation "measure (\<lambda>(P, rep, s). length s)") (auto simp: length_dropWhile_le le_imp_less_Suc)

text \<open>\<open>s.substring(i, j)\<close> for non-negative integer arguments (the smaller one is the start).\<close>

definition substring :: "string \<Rightarrow> nat \<Rightarrow> nat \<Rightarrow> string" where
  "substring s i j = take (max i j - min i j) (drop (min i j) s)"

section \<open>BlogStorage: derived fields\<close>

text \<open>
  \<^verbatim>\<open>generateSlug(title)\<close> of \<^verbatim>\<open>js/blog-storage.js\<close>:
  \<^verbatim>\<open>title.toLowerCase().trim().replace(/[^\w\s-]/g, '').replace(/\s+/g, '-')
       .replace(/-+/g, '-').substring(0, 60)\<close>.
\<close>

definition generateSlug :: "string \<Rightarrow> string" where
  "generateSlug title =
     substring
       (replaceRuns (\<lambda>c. c = CHR ''-'') ''-''
         (replaceRuns isWhiteSpace ''-''
           (replaceEach (\<lambda>c. \<not> (isWordChar c \<or> isWhiteSpace c \<or> c = CHR ''-'')) []
             (trim (toLowerCase title)))))
       0 60"

section \<open>JavaScript values and JSON\<close>

text \<open>
  The values the program handles: \<open>undefined\<close>, \<open>null\<close>, booleans, numbers, strings,
  arrays and plain objects. Numbers are modelled as integers (timestamps in milliseconds,
  lengths and read times are the numbers the program computes); an object is the list of
  its properties in definition order.
\<close>

datatype jsval =
    JUndefined
  | JNull
  | JBool bool
  | JNum int
  | JStr string
  | JArr "jsval list"
  | JObj "(string \<times> jsval) list"

text \<open>The exceptions the program can meet or throw.\<close>

datatype js_error =
    TypeError
  | RangeError
  | SyntaxError
  | QuotaExceededError
  | Error string

subsection \<open>JSON.stringify\<close>

text \<open>The decimal form of an integer, as \<open>Number.prototype.toString\<close> gives it.\<close>

definition digitChar :: "int \<Rightarrow> char" where
  "digitChar d = char_of (48 + d)"

function showDigits :: "int \<Rightarrow> string" where
  "showDigits n = (if n < 10 then [digitChar n] else showDigits (n div 10) @ [digitChar (n mod 10)])"
  by pat_completeness auto
termination
  by (relation "measure nat") auto

declare showDigits.simps [simp del]

definition showInt :: "int \<Rightarrow> string" where
  "showInt i = (if i < 0 then CHR ''-'' # showDigits (- i) else showDigits i)"

text \<open>
  \<open>QuoteJSONString\<close>: the quotation mark, the backslash and the control characters are
  escaped, the latter by their short escape or as \<open>\u00XX\<close> with lowercase digits.
\<close>

definition hexDigit :: "nat \<Rightarrow> char" where
  "hexDigit d = (if d < 10 then char_of (48 + d) else char_of (87 + d))"

definition escapeChar :: "char \<Rightarrow> string" where
  "escapeChar c =
     (if code c = 8 then [CHR 0x5C, CHR ''b'']
      else if code c = 9 then [CHR 0x5C, CHR ''t'']
      else if code c = 10 then [CHR 0x5C, CHR ''n'']
      else if code c = 12 then [CHR 0x5C, CHR ''f'']
      else if code c = 13 then [CHR 0x5C, CHR ''r'']
      else if code c = 34 then [CHR 0x5C, CHR 0x22]
      else if code c = 92 then [CHR 0x5C, CHR 0x5C]
      else if code c < 32 then [CHR 0x5C, CHR ''u'', CHR ''0'', CHR ''0'', hexDigit (code c div 16), hexDigit (code c mod 16)]
      else [c])"

definition quoteJSON :: "string \<Rightarrow> string" where
  "quoteJSON s = CHR 0x22 # concat (map escapeChar s) @ [CHR 0x22]"

text \<open>
  \<open>SerializeJSONArray\<close> and \<open>SerializeJSONObject\<close> lay their items out in the same way:
  \<open>[]\<close> for none, a comma between them without a gap, and with a gap one item per line
  at the inner indentation, the closing bracket at the outer one.
\<close>

fun joinWith :: "string \<Rightarrow> string list \<Rightarrow> string" where
  "joinWith sep [] = []"
| "joinWith sep [x] = x"
| "joinWith sep (x # y # r) = x @ sep @ joinWith sep (y # r)"

definition wrapItems :: "string \<Rightarrow> string \<Rightarrow> string \<Rightarrow> string \<Rightarrow> string list \<Rightarrow> string" where
  "wrapItems opn cls gap indent items =
     (if items = [] then opn @ cls
      else if gap = [] then opn @ joinWith '','' items @ cls
      else opn @ [CHR 0x0A] @ indent @ gap
             @ joinWith ([CHR '','', CHR 0x0A] @ indent @ gap) items
             @ [CHR 0x0A] @ indent @ cls)"

text \<open>
  \<open>SerializeJSONProperty\<close>: \<open>undefined\<close> has no serialisation (\<open>None\<close>); it becomes
  \<open>null\<close> as an array element and the property is left out as an object member. After
  the colon of a member stands a space when there is a gap.
\<close>

definition elementText :: "string option \<Rightarrow> string" where
  "elementText r = (case r of None \<Rightarrow> ''null'' | Some s \<Rightarrow> s)"

definition memberText :: "string \<Rightarrow> string \<Rightarrow> string option \<Rightarrow> string list" where
  "memberText gap k r =
     (case r of
        None \<Rightarrow> []
      | Some s \<Rightarrow> [quoteJSON k @ '':'' @ (if gap = [] then [] else '' '') @ s])"

fun serializeJSON :: "string \<Rightarrow> string \<Rightarrow> jsval \<Rightarrow> string option" where
  "serializeJSON gap indent JUndefined = None"
| "serializeJSON gap indent JNull = Some ''null''"
| "serializeJSON gap indent (JBool b) = Some (if b then ''true'' else ''false'')"
| "serializeJSON gap indent (JNum n) = Some (showInt n)"
| "serializeJSON gap indent (JStr s) = Some (quoteJSON s)"
| "serializeJSON gap indent (JArr xs) =
     Some (wrapItems ''['' '']'' gap indent
       (map (\<lambda>x. elementText (serializeJSON gap (indent @ gap) x)) xs))"
| "serializeJSON gap indent (JObj kvs) =
     Some (wrapItems ''{'' ''}'' gap indent
       (concat (map (\<lambda>(k, v). memberText gap k (serializeJSON gap (indent @ gap) v)) kvs)))"

text \<open>\<^verbatim>\<open>JSON.stringify(v)\<close> and \<^verbatim>\<open>JSON.stringify(v, null, 2)\<close>.\<close>

definition JSON_stringify :: "jsval \<Rightarrow> string option" where
  "JSON_stringify v = serializeJSON [] [] v"

definition JSON_stringify_indent2 :: "jsval \<Rightarrow> string option" where
  "JSON_stringify_indent2 v = serializeJSON ''  '' [] v"


subsection \<open>JSON.parse\<close>

text \<open>
  A recursive-descent parser for the JSON grammar: whitespace is space, tab, line feed and
  carriage return; a string may not hold a raw control character; a number may not have
  a leading zero. Number literals with a fraction or an exponent, and \<open>\u\<close> escapes above
  U+00FF, denote values outside the model; the parser does not accept them. The
  functions return the value read and the rest of the input; \<open>None\<close> is a
  \<open>SyntaxError\<close>.
\<close>

definition isJsonWs :: "char \<Rightarrow> bool" where
  "isJsonWs c = (code c \<in> {9, 10, 13, 32})"

definition skipWs :: "string \<Rightarrow> string" where
  "skipWs s = dropWhile isJsonWs s"

definition isDigit :: "char \<Rightarrow> bool" where
  "isDigit c = (48 \<le> code c \<and> code c \<le> 57)"

definition hexVal :: "char \<Rightarrow> nat option" where
  "hexVal c =
     (if 48 \<le> code c \<and> code c \<le> 57 then Some (code c - 48)
      else if 97 \<le> code c \<and> code c \<le> 102 then Some (code c - 87)
      else if 65 \<le> code c \<and> code c \<le> 70 then Some (code c - 55)
      else None)"

definition unescape :: "char \<Rightarrow> char option" where
  "unescape e =
     (if e = CHR 0x22 then Some (CHR 0x22)
      else if e = CHR 0x5C then Some (CHR 0x5C)
      else if e = CHR ''/'' then Some (CHR ''/'')
      else if e = CHR ''b'' then Some (CHR 0x08)
      else if e = CHR ''f'' then Some (CHR 0x0C)
      else if e = CHR ''n'' then Some (CHR 0x0A)
      else if e = CHR ''r'' then Some (CHR 0x0D)
      else if e = CHR ''t'' then Some (CHR 0x09)
      else None)"

fun parseChars :: "string \<Rightarrow> (string \<times> string) option" where
  "parseChars [] = None"
| "parseChars (c # r) =
     (if c = CHR 0x22 then Some ([], r)
      else if c = CHR 0x5C then
        (case r of
           [] \<Rightarrow> None
         | e # r1 \<Rightarrow>
             if e = CHR ''u'' then
               (case r1 of
                  a # b # c # d # r2 \<Rightarrow>
                    (case (hexVal a, hexVal b, hexVal c, hexVal d) of
                       (Some x3, Some x2, Some x1, Some x0) \<Rightarrow>
                         if x3 = 0 \<and> x2 = 0 then
                           (case parseChars r2 of
                              None \<Rightarrow> None
                            | Some (t, rest) \<Rightarrow> Some (char_of (16 * x1 + x0) # t, rest))
                         else None
                     | _ \<Rightarrow> None)
                | _ \<Rightarrow> None)
             else
               (case unescape e of
                  None \<Rightarrow> None
                | Some u \<Rightarrow>
                    (case parseChars r1 of
                       None \<Rightarrow> None
                     | Some (t, rest) \<Rightarrow> Some (u # t, rest))))
      else if code c < 32 then None
      else (case parseChars r of
              None \<Rightarrow> None
            | Some (t, rest) \<Rightarrow> Some (c # t, rest)))"

definition readInt :: "string \<Rightarrow> int" where
  "readInt ds = foldl (\<lambda>acc d. 10 * acc + (int (code d) - 48)) 0 ds"

definition parseDigits :: "string \<Rightarrow> (int \<times> string) option" where
  "parseDigits s =
     (case s of
        [] \<Rightarrow> None
      | c # r \<Rightarrow>
          if \<not> isDigit c then None
          else if c = CHR ''0'' then Some (0, r)
          else Some (readInt (takeWhile isDigit s), dropWhile isDigit s))"

definition startsFraction :: "string \<Rightarrow> bool" where
  "startsFraction s = (case s of [] \<Rightarrow> False | c # r \<Rightarrow> c = CHR ''.'' \<or> c = CHR ''e'' \<or> c = CHR ''E'')"

definition parseNumber :: "string \<Rightarrow> (int \<times> string) option" where
  "parseNumber s =
     (case s of
        [] \<Rightarrow> None
      | c # r \<Rightarrow>
          (case (if c = CHR ''-'' then parseDigits r else parseDigits s) of
             None \<Rightarrow> None
           | Some (n, rest) \<Rightarrow>
               if startsFraction rest then None
               else Some (if c = CHR ''-'' then - n else n, rest)))"

text \<open>
  Defining properties one after the other: a key defined again gets the new value at its
  first position. This is how a parsed object treats a repeated key, and how an object
  literal treats one.
\<close>

definition defineAll :: "(string \<times> jsval) list \<Rightarrow> (string \<times> jsval) list" where
  "defineAll ms = foldl (\<lambda>acc (k, v). AList.update k v acc) [] ms"

text \<open>
  The parser of values, of the elements of an array after its \<open>[\<close> and of the members
  of an object after its \<open>{\<close>. The first argument bounds the depth of the recursion;
  \<open>JSON_parse\<close> below starts it with more than the length of the text, and every call
  that descends has consumed a character.
\<close>

fun parseValue :: "nat \<Rightarrow> string \<Rightarrow> (jsval \<times> string) option"
and parseElements :: "nat \<Rightarrow> string \<Rightarrow> (jsval list \<times> string) option"
and parseMembers :: "nat \<Rightarrow> string \<Rightarrow> ((string \<times> jsval) list \<times> string) option"
where
  "parseValue 0 s = None"
| "parseValue (Suc n) s =
     (case skipWs s of
        [] \<Rightarrow> None
      | c # r \<Rightarrow>
          if c = CHR 0x22 then
            (case parseChars r of None \<Rightarrow> None | Some (t, rest) \<Rightarrow> Some (JStr t, rest))
          else if c = CHR ''['' then
            (case skipWs r of
               [] \<Rightarrow> None
             | d # r1 \<Rightarrow>
                 if d = CHR '']'' then Some (JArr [], r1)
                 else (case parseElements n r of
                         None \<Rightarrow> None
                       | Some (xs, rest) \<Rightarrow> Some (JArr xs, rest)))
          else if c = CHR ''{'' then
            (case skipWs r of
               [] \<Rightarrow> None
             | d # r1 \<Rightarrow>
                 if d = CHR ''}'' then Some (JObj [], r1)
                 else (case parseMembers n r of
                         None \<Rightarrow> None
                       | Some (ms, rest) \<Rightarrow> Some (JObj (defineAll ms), rest)))
          else if take 4 (c # r) = ''null'' then Some (JNull, drop 4 (c # r))
          else if take 4 (c # r) = ''true'' then Some (JBool True, drop 4 (c # r))
          else if take 5 (c # r) = ''false'' then Some (JBool False, drop 5 (c # r))
          else (case parseNumber (c # r) of
                  None \<Rightarrow> None
                | Some (i, rest) \<Rightarrow> Some (JNum i, rest)))"
| "parseElements 0 s = None"
| "parseElements (Suc n) s =
     (case parseValue n s of
        None \<Rightarrow> None
      | Some (v, r) \<Rightarrow>
          (case skipWs r of
             [] \<Rightarrow> None
           | c # r1 \<Rightarrow>
               if c = CHR '','' then
                 (case parseElements n r1 of
                    None \<Rightarrow> None
                  | Some (vs, rest) \<Rightarrow> Some (v # vs, rest))
               else if c = CHR '']'' then Some ([v], r1)
               else None))"
| "parseMembers 0 s = None"
| "parseMembers (Suc n) s =
     (case skipWs s of
        [] \<Rightarrow> None
      | q # r \<Rightarrow>
          if q \<noteq> CHR 0x22 then None
          else
            (case parseChars r of
               None \<Rightarrow> None
             | Some (k, r1) \<Rightarrow>
                 (case skipWs r1 of
                    [] \<Rightarrow> None
                  | c # r2 \<Rightarrow>
                      if c \<noteq> CHR '':'' then None
                      else
                        (case parseValue n r2 of
                           None \<Rightarrow> None
                         | Some (v, r3) \<Rightarrow>
                             (case skipWs r3 of
                                [] \<Rightarrow> None
                              | e # r4 \<Rightarrow>
                                  if e = CHR '','' then
                                    (case parseMembers n r4 of
                                       None \<Rightarrow> None
                                     | Some (ms, rest) \<Rightarrow> Some ((k, v) # ms, rest))
                                  else if e = CHR ''}'' then Some ([(k, v)], r4)
                                  else None)))))"

definition JSON_parse :: "string \<Rightarrow> jsval option" where
  "JSON_parse s =
     (case parseValue (Suc (length s)) s of
        None \<Rightarrow> None
      | Some (v, rest) \<Rightarrow> if skipWs rest = [] then Some v else None)"

section \<open>JavaScript operators and property access\<close>

text \<open>
  Truthiness (\<open>ToBoolean\<close>), as \<^verbatim>\<open>if (x)\<close>, \<^verbatim>\<open>!x\<close> and \<^verbatim>\<open>x || y\<close> use it.
\<close>

fun truthy :: "jsval \<Rightarrow> bool" where
  "truthy JUndefined = False"
| "truthy JNull = False"
| "truthy (JBool b) = b"
| "truthy (JNum n) = (n \<noteq> 0)"
| "truthy (JStr s) = (s \<noteq> [])"
| "truthy (JArr xs) = True"
| "truthy (JObj kvs) = True"

text \<open>\<^verbatim>\<open>a || b\<close> on values.\<close>

definition orElse :: "jsval \<Rightarrow> jsval \<Rightarrow> jsval" where
  "orElse a b = (if truthy a then a else b)"

text \<open>
  \<^verbatim>\<open>a === b\<close> where one operand is part of a freshly parsed value: primitives are compared
  by type and value; an object or array is identical only to itself, so it is never equal
  to a value that came from elsewhere.
\<close>

fun strictEquals :: "jsval \<Rightarrow> jsval \<Rightarrow> bool" where
  "strictEquals JUndefined JUndefined = True"
| "strictEquals JNull JNull = True"
| "strictEquals (JBool a) (JBool b) = (a = b)"
| "strictEquals (JNum a) (JNum b) = (a = b)"
| "strictEquals (JStr a) (JStr b) = (a = b)"
| "strictEquals a b = False"

text \<open>The array index a property key denotes, if it is the decimal form of one below \<open>n\<close>.\<close>

definition ownIndex :: "string \<Rightarrow> nat \<Rightarrow> nat option" where
  "ownIndex k n = find (\<lambda>i. showDigits (int i) = k) [0..<n]"

text \<open>
  \<^verbatim>\<open>o.k\<close> for a property of an object literal or of a parsed value. Reading a property of
  \<open>undefined\<close> or \<open>null\<close> throws a \<open>TypeError\<close>; a missing property reads as
  \<open>undefined\<close>. Only own properties are modelled (the keys the program reads, such as
  \<open>id\<close>, \<open>posts\<close> or \<open>expiresAt\<close>, are not names of inherited members).
\<close>

definition propOf :: "(string \<times> jsval) list \<Rightarrow> string \<Rightarrow> jsval" where
  "propOf kvs k = (case map_of kvs k of None \<Rightarrow> JUndefined | Some v \<Rightarrow> v)"

fun getProp :: "jsval \<Rightarrow> string \<Rightarrow> js_error + jsval" where
  "getProp JUndefined k = Inl TypeError"
| "getProp JNull k = Inl TypeError"
| "getProp (JBool b) k = Inr JUndefined"
| "getProp (JNum n) k = Inr JUndefined"
| "getProp (JStr s) k =
     (if k = ''length'' then Inr (JNum (int (length s)))
      else (case ownIndex k (length s) of None \<Rightarrow> Inr JUndefined | Some i \<Rightarrow> Inr (JStr [s ! i])))"
| "getProp (JArr xs) k =
     (if k = ''length'' then Inr (JNum (int (length xs)))
      else (case ownIndex k (length xs) of None \<Rightarrow> Inr JUndefined | Some i \<Rightarrow> Inr (xs ! i)))"
| "getProp (JObj kvs) k = Inr (propOf kvs k)"

text \<open>
  The own enumerable properties \<^verbatim>\<open>{...v}\<close> copies: those of an object, the indexed elements
  of an array, the indexed characters of a string, nothing for the other primitives.
\<close>

fun spreadProps :: "jsval \<Rightarrow> (string \<times> jsval) list" where
  "spreadProps (JObj kvs) = kvs"
| "spreadProps (JArr xs) = map (\<lambda>i. (showDigits (int i), xs ! i)) [0..<length xs]"
| "spreadProps (JStr s) = map (\<lambda>i. (showDigits (int i), JStr [s ! i])) [0..<length s]"
| "spreadProps v = []"

text \<open>
  An object literal \<^verbatim>\<open>{ p1, p2, ... }\<close> defines its properties in order; defining a key
  again replaces the value and keeps the key's first position. (JavaScript lists
  array-index keys before the others; the model keeps definition order for all keys, which
  differs only in the order such keys are serialised in.)
\<close>

definition objectLiteral :: "(string \<times> jsval) list \<Rightarrow> jsval" where
  "objectLiteral props = JObj (defineAll props)"

section \<open>Date\<close>

text \<open>
  \<^verbatim>\<open>new Date(t).toISOString().split('T')[0]\<close> for an integral time value \<open>t\<close> in
  milliseconds since the epoch: the UTC calendar date, \<open>YYYY-MM-DD\<close> for the years 0 to
  9999 and with a sign and six digits for the others. A time value beyond
  \<open>8.64e15\<close> in magnitude is an invalid date, on which \<open>toISOString\<close> throws a
  \<open>RangeError\<close>. The calendar conversion is the proleptic Gregorian one on days since
  the epoch.
\<close>

definition civilFromDays :: "int \<Rightarrow> int \<times> int \<times> int" where
  "civilFromDays days =
     (let z = days + 719468;
          era = z div 146097;
          doe = z - era * 146097;
          yoe = (doe - doe div 1460 + doe div 36524 - doe div 146096) div 365;
          doy = doe - (365 * yoe + yoe div 4 - yoe div 100);
          mp = (5 * doy + 2) div 153;
          d = doy - (153 * mp + 2) div 5 + 1;
          m = (if mp < 10 then mp + 3 else mp - 9);
          y = yoe + era * 400 + (if m \<le> 2 then 1 else 0)
      in (y, m, d))"

definition padStart :: "nat \<Rightarrow> string \<Rightarrow> string" where
  "padStart w s = replicate (w - length s) CHR ''0'' @ s"

definition isoYear :: "int \<Rightarrow> string" where
  "isoYear y =
     (if 0 \<le> y \<and> y \<le> 9999 then padStart 4 (showDigits y)
      else if y < 0 then CHR ''-'' # padStart 6 (showDigits (- y))
      else CHR ''+'' # padStart 6 (showDigits y))"

definition toISODate :: "int \<Rightarrow> js_error + string" where
  "toISODate t =
     (if t < - 8640000000000000 \<or> 8640000000000000 < t then Inl RangeError
      else (case civilFromDays (t div 86400000) of
              (y, m, d) \<Rightarrow>
                Inr (isoYear y @ ''-'' @ padStart 2 (showDigits m) @ ''-''
                       @ padStart 2 (showDigits d))))"

section \<open>Web Storage\<close>

text \<open>
  A storage area (\<open>localStorage\<close> or \<open>sessionStorage\<close>) maps keys to string values and
  has a quota; \<open>setItem\<close> throws \<open>QuotaExceededError\<close>, leaving the area unchanged, when
  the data would no longer fit. The quota is a parameter of the area, and the size of
  the data is the number of code units of its keys and values.
\<close>

record storage =
  entries :: "(string \<times> string) list"
  quota :: nat

definition storageSize :: "(string \<times> string) list \<Rightarrow> nat" where
  "storageSize kvs = sum_list (map (\<lambda>kv. length (fst kv) + length (snd kv)) kvs)"

definition getItem :: "storage \<Rightarrow> string \<Rightarrow> string option" where
  "getItem st k = map_of (entries st) k"

definition hasRoom :: "storage \<Rightarrow> string \<Rightarrow> string \<Rightarrow> bool" where
  "hasRoom st k v = (storageSize (AList.update k v (entries st)) \<le> quota st)"

definition setItem :: "storage \<Rightarrow> string \<Rightarrow> string \<Rightarrow> js_error + storage" where
  "setItem st k v =
     (if hasRoom st k v then Inr (st\<lparr>entries := AList.update k v (entries st)\<rparr>)
      else Inl QuotaExceededError)"

definition removeItem :: "storage \<Rightarrow> string \<Rightarrow> storage" where
  "removeItem st k = st\<lparr>entries := AList.delete k (entries st)\<rparr>"

text \<open>A string read from storage is falsy when it is absent (\<open>null\<close>) or empty.\<close>

definition present :: "string option \<Rightarrow> bool" where
  "present r = (case r of None \<Rightarrow> False | Some s \<Rightarrow> s \<noteq> [])"

text \<open>
  \<open>setItem\<close> stores the string form of its argument: \<open>JSON.stringify\<close> returns
  \<open>undefined\<close> for an undefined value, which is stored as the text \<open>undefined\<close>.
\<close>

definition storedText :: "string option \<Rightarrow> string" where
  "storedText r = (case r of None \<Rightarrow> ''undefined'' | Some s \<Rightarrow> s)"

text \<open>The two storage areas of a browser tab.\<close>

record browser =
  localStorage :: storage
  sessionStorage :: storage

section \<open>BlogStorage\<close>

text \<open>
  The class \<^verbatim>\<open>BlogStorage\<close> of \<^verbatim>\<open>js/blog-storage.js\<close>. Every method takes the browser
  state and returns the new one with its result; a thrown exception is \<open>Inl\<close> of the
  error and leaves the state as it was (each method writes at most once, as its last step).
  \<^verbatim>\<open>Date.now()\<close> is the parameter \<open>now\<close>.
\<close>

definition STORAGE_KEY :: string where
  "STORAGE_KEY = ''blog_posts''"

text \<open>
  \<^verbatim>\<open>getAllPosts()\<close>: the parsed collection, or \<^verbatim>\<open>[]\<close> when nothing is stored, the stored
  text is empty or it does not parse.
\<close>

definition getAllPosts :: "browser \<Rightarrow> jsval" where
  "getAllPosts b =
     (case getItem (localStorage b) STORAGE_KEY of
        None \<Rightarrow> JArr []
      | Some posts \<Rightarrow>
          if posts \<noteq> [] then
            (case JSON_parse posts of
               None \<Rightarrow> JArr []
             | Some v \<Rightarrow> v)
          else JArr [])"

text \<open>
  \<^verbatim>\<open>savePosts(posts)\<close>: a \<open>QuotaExceededError\<close> of \<open>setItem\<close> is replaced by an
  \<open>Error\<close> with a message; any other error is rethrown.
\<close>

definition savePosts :: "browser \<Rightarrow> jsval \<Rightarrow> js_error + browser" where
  "savePosts b posts =
     (case setItem (localStorage b) STORAGE_KEY (storedText (JSON_stringify posts)) of
        Inl e \<Rightarrow>
          if e = QuotaExceededError
          then Inl (Error ''Storage quota exceeded. Try using external image URLs instead of base64.'')
          else Inl e
      | Inr ls \<Rightarrow> Inr (b\<lparr>localStorage := ls\<rparr>))"

text \<open>\<^verbatim>\<open>content.replace(/<[^>]*>/g, '')\<close>: every \<open><\<close> up to the next \<open>>\<close> is removed.\<close>

function stripTags :: "string \<Rightarrow> string" where
  "stripTags [] = []"
| "stripTags (c # cs) =
     (if c = CHR ''<'' \<and> CHR ''>'' \<in> set cs
      then stripTags (tl (dropWhile (\<lambda>x. x \<noteq> CHR ''>'') cs))
      else c # stripTags cs)"
  by pat_completeness auto
termination
proof (relation "measure length")
  show "wf (measure length)" by simp
next
  fix c :: char and cs :: string
  have "length (tl (dropWhile (\<lambda>x. x \<noteq> CHR ''>'') cs)) \<le> length cs"
    using length_dropWhile_le [of "\<lambda>x. x \<noteq> CHR ''>''" cs] by simp
  then show "(tl (dropWhile (\<lambda>x. x \<noteq> CHR ''>'') cs), c # cs) \<in> measure length" by simp
next
  fix c :: char and cs :: string
  show "(cs, c # cs) \<in> measure length" by simp
qed

text \<open>
  \<^verbatim>\<open>s.split(/[C]+/)\<close> for a character class: the pieces between the maximal runs of
  members of the class (an empty piece before a leading run and after a trailing one).
\<close>

function splitRuns :: "(char \<Rightarrow> bool) \<Rightarrow> string \<Rightarrow> string list" where
  "splitRuns P [] = [[]]"
| "splitRuns P (c # cs) =
     (if P c then [] # splitRuns P (dropWhile P cs)
      else (case splitRuns P cs of
              [] \<Rightarrow> [[c]]
            | piece # pieces \<Rightarrow> (c # piece) # pieces))"
  by pat_completeness auto
termination
  by (relation "measure (\<lambda>(P, s). length s)") (auto simp: length_dropWhile_le le_imp_less_Suc)

text \<open>
  \<^verbatim>\<open>calculateReadTime(content)\<close>:
  \<^verbatim>\<open>Math.max(1, Math.ceil(text.trim().split(/\s+/).length / 200))\<close> on the text without tags.
\<close>

definition calculateReadTime :: "string \<Rightarrow> int" where
  "calculateReadTime content =
     (let text = stripTags content;
          words = length (splitRuns isWhiteSpace (trim text));
          minutes = (int words + 199) div 200
      in max 1 minutes)"

text \<open>
  \<^verbatim>\<open>generateExcerpt(content)\<close>: the first 150 characters of the trimmed text without tags,
  followed by \<open>...\<close> when something was cut.
\<close>

definition generateExcerpt :: "string \<Rightarrow> string" where
  "generateExcerpt content =
     (let text = stripTags content;
          excerpt = substring (trim text) 0 150
      in if length excerpt < length (trim text) then excerpt @ ''...'' else excerpt)"

text \<open>
  A method called on a value that must be a string (\<^verbatim>\<open>title.toLowerCase()\<close>,
  \<^verbatim>\<open>content.replace(...)\<close>): on \<open>undefined\<close>, \<open>null\<close> or a value without that method the
  call throws a \<open>TypeError\<close>.
\<close>

definition asString :: "jsval \<Rightarrow> js_error + string" where
  "asString v = (case v of JStr s \<Rightarrow> Inr s | _ \<Rightarrow> Inl TypeError)"

text \<open>
  \<^verbatim>\<open>generateId(title, timestamp)\<close>: the slug of the title, a hyphen and the UTC date of the
  timestamp.
\<close>

definition generateId :: "jsval \<Rightarrow> int \<Rightarrow> js_error + string" where
  "generateId title timestamp =
     (case asString title of
        Inl e \<Rightarrow> Inl e
      | Inr t \<Rightarrow>
          (case toISODate timestamp of
             Inl e \<Rightarrow> Inl e
           | Inr date \<Rightarrow> Inr (generateSlug t @ ''-'' @ date)))"

text \<open>
  \<^verbatim>\<open>posts.findIndex(p => p.id === postData.id)\<close>: the index of the first element whose
  \<open>id\<close> is strictly equal to the given one; \<open>None\<close> stands for \<open>-1\<close>. Reading \<open>p.id\<close>
  of a \<open>null\<close> element throws.
\<close>

fun findIndexById :: "jsval \<Rightarrow> jsval list \<Rightarrow> nat \<Rightarrow> js_error + nat option" where
  "findIndexById idv [] i = Inr None"
| "findIndexById idv (p # ps) i =
     (case getProp p ''id'' of
        Inl e \<Rightarrow> Inl e
      | Inr v \<Rightarrow> if strictEquals v idv then Inr (Some i) else findIndexById idv ps (Suc i))"

text \<open>
  The new post of the create branch of \<^verbatim>\<open>savePost\<close>: the object literal
  \<^verbatim>\<open>{...postData, id, slug, createdAt, updatedAt, readTime, excerpt}\<close>, its property values
  computed in that order.
\<close>

definition newPost :: "(string \<times> jsval) list \<Rightarrow> int \<Rightarrow> js_error + jsval" where
  "newPost postData now =
     (case generateId (propOf postData ''title'') now of
        Inl e \<Rightarrow> Inl e
      | Inr newId \<Rightarrow>
          (case asString (propOf postData ''title'') of
             Inl e \<Rightarrow> Inl e
           | Inr title \<Rightarrow>
               (case asString (orElse (propOf postData ''content'') (JStr [])) of
                  Inl e \<Rightarrow> Inl e
                | Inr content \<Rightarrow>
                    Inr (objectLiteral
                      (postData @
                       [(''id'', JStr newId),
                        (''slug'', JStr (generateSlug title)),
                        (''createdAt'', JNum now),
                        (''updatedAt'', JNum now),
                        (''readTime'', JNum (calculateReadTime content)),
                        (''excerpt'', orElse (propOf postData ''excerpt'')
                                        (JStr (generateExcerpt content)))])))))"

text \<open>
  The body of the \<^verbatim>\<open>try\<close> block of \<^verbatim>\<open>savePost(postData)\<close>. \<^verbatim>\<open>posts.findIndex\<close> exists only
  when the stored value is an array. On a match the post is
  \<^verbatim>\<open>{...posts[existingIndex], ...postData, updatedAt: now}\<close> and replaces the element;
  otherwise the new post is pushed. The collection is then saved and the post returned.
\<close>

definition savePostBody :: "browser \<Rightarrow> int \<Rightarrow> (string \<times> jsval) list \<Rightarrow> js_error + jsval \<times> browser" where
  "savePostBody b now postData =
     (case getAllPosts b of
        JArr posts \<Rightarrow>
          (case findIndexById (propOf postData ''id'') posts 0 of
             Inl e \<Rightarrow> Inl e
           | Inr (Some existingIndex) \<Rightarrow>
               (let post = objectLiteral
                      (spreadProps (posts ! existingIndex) @ postData @ [(''updatedAt'', JNum now)])
                in case savePosts b (JArr (posts[existingIndex := post])) of
                     Inl e \<Rightarrow> Inl e
                   | Inr b' \<Rightarrow> Inr (post, b'))
           | Inr None \<Rightarrow>
               (case newPost postData now of
                  Inl e \<Rightarrow> Inl e
                | Inr post \<Rightarrow>
                    (case savePosts b (JArr (posts @ [post])) of
                       Inl e \<Rightarrow> Inl e
                     | Inr b' \<Rightarrow> Inr (post, b'))))
      | _ \<Rightarrow> Inl TypeError)"

text \<open>
  \<^verbatim>\<open>savePost(postData)\<close>: the \<^verbatim>\<open>catch\<close> clause replaces a \<open>QuotaExceededError\<close> by an
  \<open>Error\<close> with a message and rethrows everything else.
\<close>

definition savePost :: "browser \<Rightarrow> int \<Rightarrow> (string \<times> jsval) list \<Rightarrow> js_error + jsval \<times> browser" where
  "savePost b now postData =
     (case savePostBody b now postData of
        Inl e \<Rightarrow>
          if e = QuotaExceededError
          then Inl (Error ''Storage quota exceeded. Please delete old posts or use smaller images.'')
          else Inl e
      | Inr r \<Rightarrow> Inr r)"

text \<open>
  \<^verbatim>\<open>exportToJSON()\<close>: \<^verbatim>\<open>JSON.stringify({ posts }, null, 2)\<close>.
\<close>

definition exportToJSON :: "browser \<Rightarrow> string option" where
  "exportToJSON b = JSON_stringify_indent2 (objectLiteral [(''posts'', getAllPosts b)])"

text \<open>
  \<^verbatim>\<open>importFromJSON(jsonString)\<close>: parse, take \<^verbatim>\<open>data.posts || []\<close>, save it and return its
  \<open>length\<close>. Whatever is thrown inside the \<^verbatim>\<open>try\<close> block (a syntax error, reading
  \<open>posts\<close> of \<open>null\<close>, a failed save) is replaced by \<open>Error('Invalid JSON format')\<close>.
\<close>

definition importBody :: "browser \<Rightarrow> string \<Rightarrow> js_error + jsval \<times> browser" where
  "importBody b jsonString =
     (case JSON_parse jsonString of
        None \<Rightarrow> Inl SyntaxError
      | Some data \<Rightarrow>
          (case getProp data ''posts'' of
             Inl e \<Rightarrow> Inl e
           | Inr p \<Rightarrow>
               (let posts = orElse p (JArr [])
                in case savePosts b posts of
                     Inl e \<Rightarrow> Inl e
                   | Inr b' \<Rightarrow>
                       (case getProp posts ''length'' of
                          Inl e \<Rightarrow> Inl e
                        | Inr n \<Rightarrow> Inr (n, b')))))"

definition importFromJSON :: "browser \<Rightarrow> string \<Rightarrow> js_error + jsval \<times> browser" where
  "importFromJSON b jsonString =
     (case importBody b jsonString of
        Inl e \<Rightarrow> Inl (Error ''Invalid JSON format'')
      | Inr r \<Rightarrow> Inr r)"

text \<open>The state a method leaves: the returned one, or the old one when it threw.\<close>

definition stateAfter :: "browser \<Rightarrow> js_error + 'a \<times> browser \<Rightarrow> browser" where
  "stateAfter b r = (case r of Inl e \<Rightarrow> b | Inr (x, b') \<Rightarrow> b')"

section \<open>BlogAuth\<close>

text \<open>
  The class \<^verbatim>\<open>BlogAuth\<close> of \<^verbatim>\<open>js/blog-auth.js\<close>. The \<^verbatim>\<open>async\<close> methods run to completion
  one after the other, so they are modelled as ordinary functions on the browser state.
  Each reading of \<^verbatim>\<open>Date.now()\<close> is a parameter.
\<close>

definition PASSWORD_KEY :: string where
  "PASSWORD_KEY = ''blog_admin_password''"

definition SESSION_KEY :: string where
  "SESSION_KEY = ''blog_admin_session''"

definition SESSION_DURATION :: int where
  "SESSION_DURATION = 24 * 60 * 60 * 1000"

definition isPasswordSet :: "browser \<Rightarrow> bool" where
  "isPasswordSet b = (getItem (localStorage b) PASSWORD_KEY \<noteq> None)"

text \<open>
  \<^verbatim>\<open>hashPassword(password)\<close>: the UTF-8 bytes of the password (\<^verbatim>\<open>TextEncoder\<close>), their
  digest, and each byte of the digest as two lowercase hexadecimal digits. The digest
  function (\<^verbatim>\<open>crypto.subtle.digest('SHA-256', ...)\<close>, which the platform provides) is the
  parameter \<open>digest\<close>.
\<close>

definition utf8 :: "string \<Rightarrow> nat list" where
  "utf8 s = concat (map (\<lambda>c. if code c < 128 then [code c]
                               else [192 + code c div 64, 128 + code c mod 64]) s)"

definition hexByte :: "nat \<Rightarrow> string" where
  "hexByte n = [hexDigit (n div 16), hexDigit (n mod 16)]"

definition hashPassword :: "(nat list \<Rightarrow> nat list) \<Rightarrow> string \<Rightarrow> string" where
  "hashPassword digest password = concat (map hexByte (digest (utf8 password)))"

text \<open>
  \<^verbatim>\<open>setPassword(password)\<close>: false for a password that is empty or shorter than 6, and
  when storing the hash throws; true after storing it.
\<close>

definition setPassword :: "(nat list \<Rightarrow> nat list) \<Rightarrow> string \<Rightarrow> browser \<Rightarrow> bool \<times> browser" where
  "setPassword digest password b =
     (if password = [] \<or> length password < 6 then (False, b)
      else (case setItem (localStorage b) PASSWORD_KEY (hashPassword digest password) of
              Inl e \<Rightarrow> (False, b)
            | Inr ls \<Rightarrow> (True, b\<lparr>localStorage := ls\<rparr>)))"

definition verifyPassword :: "(nat list \<Rightarrow> nat list) \<Rightarrow> string \<Rightarrow> browser \<Rightarrow> bool" where
  "verifyPassword digest password b =
     (case getItem (localStorage b) PASSWORD_KEY of
        None \<Rightarrow> False
      | Some storedHash \<Rightarrow>
          if storedHash = [] then False
          else hashPassword digest password = storedHash)"

text \<open>
  \<^verbatim>\<open>createSession(rememberMe)\<close> reads the clock twice, for \<open>timestamp\<close> and for
  \<open>expiresAt\<close>: \<open>now1\<close> and \<open>now2\<close>. The record goes to \<open>localStorage\<close> when
  \<open>rememberMe\<close> is set and to \<open>sessionStorage\<close> otherwise; a failed \<open>setItem\<close> is not
  caught here.
\<close>

definition sessionRecord :: "bool \<Rightarrow> int \<Rightarrow> int \<Rightarrow> jsval" where
  "sessionRecord rememberMe now1 now2 =
     objectLiteral
       [(''authenticated'', JBool True),
        (''timestamp'', JNum now1),
        (''expiresAt'', JNum (now2 + (if rememberMe then 30 * 24 * 60 * 60 * 1000
                                      else SESSION_DURATION)))]"

text \<open>The text stored for a session: \<^verbatim>\<open>JSON.stringify(session)\<close>.\<close>

definition sessionText :: "bool \<Rightarrow> int \<Rightarrow> int \<Rightarrow> string" where
  "sessionText rememberMe now1 now2 =
     storedText (JSON_stringify (sessionRecord rememberMe now1 now2))"

definition createSession :: "bool \<Rightarrow> int \<Rightarrow> int \<Rightarrow> browser \<Rightarrow> js_error + browser" where
  "createSession rememberMe now1 now2 b =
     (if rememberMe then
        (case setItem (localStorage b) SESSION_KEY (sessionText rememberMe now1 now2) of
           Inl e \<Rightarrow> Inl e
         | Inr ls \<Rightarrow> Inr (b\<lparr>localStorage := ls\<rparr>))
      else
        (case setItem (sessionStorage b) SESSION_KEY (sessionText rememberMe now1 now2) of
           Inl e \<Rightarrow> Inl e
         | Inr ss \<Rightarrow> Inr (b\<lparr>sessionStorage := ss\<rparr>)))"

text \<open>
  The session text \<^verbatim>\<open>isAuthenticated\<close> and \<^verbatim>\<open>getSession\<close> look up: the one in
  \<open>sessionStorage\<close> unless it is absent or empty, then the one in \<open>localStorage\<close>.
\<close>

definition sessionData :: "browser \<Rightarrow> string option" where
  "sessionData b =
     (if present (getItem (sessionStorage b) SESSION_KEY)
      then getItem (sessionStorage b) SESSION_KEY
      else getItem (localStorage b) SESSION_KEY)"

definition logout :: "browser \<Rightarrow> browser" where
  "logout b =
     b\<lparr>sessionStorage := removeItem (sessionStorage b) SESSION_KEY,
       localStorage := removeItem (localStorage b) SESSION_KEY\<rparr>"

text \<open>
  \<^verbatim>\<open>now > x\<close> for an integer \<open>now\<close>: \<open>x\<close> is converted to a number first. \<open>undefined\<close>
  becomes \<open>NaN\<close>, with which every comparison is false; \<open>null\<close> becomes 0 and a boolean 0
  or 1. The conversion of strings, arrays and objects is not modelled: the result is
  \<open>None\<close> for them.
\<close>

fun greaterThan :: "int \<Rightarrow> jsval \<Rightarrow> bool option" where
  "greaterThan now (JNum n) = Some (n < now)"
| "greaterThan now JUndefined = Some False"
| "greaterThan now JNull = Some (0 < now)"
| "greaterThan now (JBool b) = Some ((if b then 1 else 0) < now)"
| "greaterThan now v = None"

text \<open>
  \<^verbatim>\<open>isAuthenticated()\<close>. A session text that does not parse, or that parses to \<open>null\<close>
  (reading \<open>expiresAt\<close> then throws), ends in the \<^verbatim>\<open>catch\<close> clause: false, nothing
  cleared. The result is \<open>None\<close> only where the comparison is outside the model.
\<close>

definition isAuthenticated :: "int \<Rightarrow> browser \<Rightarrow> (bool \<times> browser) option" where
  "isAuthenticated now b =
     (if \<not> present (sessionData b) then Some (False, b)
      else (case JSON_parse (the (sessionData b)) of
              None \<Rightarrow> Some (False, b)
            | Some session \<Rightarrow>
                (case getProp session ''expiresAt'' of
                   Inl e \<Rightarrow> Some (False, b)
                 | Inr expiresAt \<Rightarrow>
                     (case greaterThan now expiresAt of
                        None \<Rightarrow> None
                      | Some True \<Rightarrow> Some (False, logout b)
                      | Some False \<Rightarrow>
                          (case getProp session ''authenticated'' of
                             Inl e \<Rightarrow> Some (False, b)
                           | Inr a \<Rightarrow> Some (strictEquals a (JBool True), b))))))"

text \<open>\<^verbatim>\<open>getSession()\<close>: the parsed session, or \<open>null\<close>.\<close>

definition getSession :: "browser \<Rightarrow> jsval" where
  "getSession b =
     (if \<not> present (sessionData b) then JNull
      else (case JSON_parse (the (sessionData b)) of
              None \<Rightarrow> JNull
            | Some session \<Rightarrow> session))"

text \<open>
  \<^verbatim>\<open>session.expiresAt = v\<close> in strict code (a class body is strict): it defines or replaces
  the property of an object, adds a named property to an array (which \<open>JSON.stringify\<close>
  does not write), and throws a \<open>TypeError\<close> on a primitive.
\<close>

fun setProp :: "jsval \<Rightarrow> string \<Rightarrow> jsval \<Rightarrow> js_error + jsval" where
  "setProp (JObj kvs) k v = Inr (JObj (AList.update k v kvs))"
| "setProp (JArr xs) k v = Inr (JArr xs)"
| "setProp x k v = Inl TypeError"

text \<open>
  \<^verbatim>\<open>extendSession()\<close>: the session found gets \<open>expiresAt = now + SESSION_DURATION\<close> and is
  written back to \<open>sessionStorage\<close> when that holds a session text, to \<open>localStorage\<close>
  otherwise. Nothing is caught.
\<close>

definition extendSession :: "int \<Rightarrow> browser \<Rightarrow> js_error + browser" where
  "extendSession now b =
     (let session = getSession b
      in if truthy session then
           (case setProp session ''expiresAt'' (JNum (now + SESSION_DURATION)) of
              Inl e \<Rightarrow> Inl e
            | Inr session' \<Rightarrow>
                if present (getItem (sessionStorage b) SESSION_KEY) then
                  (case setItem (sessionStorage b) SESSION_KEY (storedText (JSON_stringify session')) of
                     Inl e \<Rightarrow> Inl e
                   | Inr ss \<Rightarrow> Inr (b\<lparr>sessionStorage := ss\<rparr>))
                else
                  (case setItem (localStorage b) SESSION_KEY (storedText (JSON_stringify session')) of
                     Inl e \<Rightarrow> Inl e
                   | Inr ls \<Rightarrow> Inr (b\<lparr>localStorage := ls\<rparr>)))
         else Inr b)"

text \<open>
  The result object of \<^verbatim>\<open>login\<close>: \<open>firstTime\<close> is absent from the failure results.
\<close>

record loginResult =
  success :: bool
  message :: string
  firstTime :: "bool option"

text \<open>
  \<^verbatim>\<open>login(password, rememberMe)\<close>. Its \<^verbatim>\<open>catch\<close> clause turns an exception of
  \<^verbatim>\<open>createSession\<close> into a failure result; the password set before stays set.
\<close>

definition login ::
  "(nat list \<Rightarrow> nat list) \<Rightarrow> string \<Rightarrow> bool \<Rightarrow> int \<Rightarrow> int \<Rightarrow> browser \<Rightarrow> loginResult \<times> browser" where
  "login digest password rememberMe now1 now2 b =
     (if \<not> isPasswordSet b then
        (case setPassword digest password b of
           (True, b1) \<Rightarrow>
             (case createSession rememberMe now1 now2 b1 of
                Inl e \<Rightarrow>
                  (\<lparr>success = False, message = ''An error occurred during login.'',
                    firstTime = None\<rparr>, b1)
              | Inr b2 \<Rightarrow>
                  (\<lparr>success = True,
                    message = ''Password set successfully! Welcome to your blog admin.'',
                    firstTime = Some True\<rparr>, b2))
         | (False, b1) \<Rightarrow>
             (\<lparr>success = False, message = ''Failed to set password. Please try again.'',
               firstTime = None\<rparr>, b1))
      else if verifyPassword digest password b then
        (case createSession rememberMe now1 now2 b of
           Inl e \<Rightarrow>
             (\<lparr>success = False, message = ''An error occurred during login.'',
               firstTime = None\<rparr>, b)
         | Inr b2 \<Rightarrow>
             (\<lparr>success = True, message = ''Login successful!'', firstTime = Some False\<rparr>, b2))
      else
        (\<lparr>success = False, message = ''Incorrect password. Please try again.'',
          firstTime = None\<rparr>, b))"

subsection \<open>The slug as the specification words it\<close>

text \<open>
  The specification describes the slug as six steps: lowercase, trim, strip the characters
  that are not word characters, whitespace or hyphens, collapse each whitespace run to a
  single hyphen, collapse repeated hyphens, truncate to 60 characters. Each step is written
  here on its own, without the regular-expression primitives.
\<close>

fun collapseWhitespace :: "string \<Rightarrow> string" where
  "collapseWhitespace [] = []"
| "collapseWhitespace [a] = (if isWhiteSpace a then ''-'' else [a])"
| "collapseWhitespace (a # b # r) =
     (if isWhiteSpace a \<and> isWhiteSpace b then collapseWhitespace (b # r)
      else if isWhiteSpace a then CHR ''-'' # collapseWhitespace (b # r)
      else a # collapseWhitespace (b # r))"

fun collapseHyphens :: "string \<Rightarrow> string" where
  "collapseHyphens (a # b # r) =
     (if a = CHR ''-'' \<and> b = CHR ''-'' then collapseHyphens (b # r)
      else a # collapseHyphens (b # r))"
| "collapseHyphens s = s"

definition generateSlug_spec :: "string \<Rightarrow> string" where
  "generateSlug_spec title =
     take 60 (collapseHyphens (collapseWhitespace
       (filter (\<lambda>c. isWordChar c \<or> isWhiteSpace c \<or> c = CHR ''-'')
         (rev (dropWhile isWhiteSpace (rev (dropWhile isWhiteSpace (map toLowerChar title))))))))"

text \<open>The characters a slug is made of, and the absence of two hyphens in a row.\<close>

definition isSlugChar :: "char \<Rightarrow> bool" where
  "isSlugChar c = ((48 \<le> code c \<and> code c \<le> 57) \<or> code c = 95
                   \<or> (97 \<le> code c \<and> code c \<le> 122) \<or> c = CHR ''-'')"

fun noDoubleHyphen :: "string \<Rightarrow> bool" where
  "noDoubleHyphen (a # b # r) = (\<not> (a = CHR ''-'' \<and> b = CHR ''-'') \<and> noDoubleHyphen (b # r))"
| "noDoubleHyphen s = True"

definition isUpper :: "char \<Rightarrow> bool" where
  "isUpper c = (65 \<le> code c \<and> code c \<le> 90)"

fun isJSON :: "jsval \<Rightarrow> bool" where
  "isJSON JUndefined = False"
| "isJSON (JArr xs) = list_all isJSON xs"
| "isJSON (JObj kvs) = (distinct (map fst kvs) \<and> list_all (\<lambda>kv. isJSON (snd kv)) kvs)"
| "isJSON v = True"

fun fuel :: "jsval \<Rightarrow> nat" where
  "fuel (JArr xs) = Suc (sum_list (map (\<lambda>x. Suc (fuel x)) xs))"
| "fuel (JObj kvs) = Suc (sum_list (map (\<lambda>kv. Suc (fuel (snd kv))) kvs))"
| "fuel v = 1"

definition okRest :: "string \<Rightarrow> bool" where
  "okRest r = (case r of [] \<Rightarrow> True | c # _ \<Rightarrow> \<not> isDigit c \<and> c \<noteq> CHR ''.'' \<and> c \<noteq> CHR ''e'' \<and> c \<noteq> CHR ''E'')"

definition wsOnly :: "string \<Rightarrow> bool" where
  "wsOnly s = (\<forall>c \<in> set s. isJsonWs c)"

definition valueStart :: "char \<Rightarrow> bool" where
  "valueStart c = (c = CHR 0x22 \<or> c = CHR ''['' \<or> c = CHR ''{'' \<or> c = CHR ''n'' \<or> c = CHR ''t''
                   \<or> c = CHR ''f'' \<or> c = CHR ''-'' \<or> isDigit c)"

section \<open>Example states\<close>

text \<open>
  Concrete browser states on which the theorems below are tried: an empty browser; the
  states after \<^verbatim>\<open>createSession\<close> at time 0 in the tab scope, in the durable scope and in
  both; the state in which a durable session has expired while a tab session is valid;
  and the state after a first post has been saved.
\<close>

definition emptyBrowser :: browser where
  "emptyBrowser = \<lparr>localStorage = \<lparr>entries = [], quota = 5000\<rparr>,
                    sessionStorage = \<lparr>entries = [], quota = 5000\<rparr>\<rparr>"

definition tabSession :: browser where
  "tabSession = \<lparr>localStorage = \<lparr>entries = [], quota = 5000\<rparr>,
                  sessionStorage = \<lparr>entries = [(SESSION_KEY, sessionText False 0 0)], quota = 5000\<rparr>\<rparr>"

definition durableSession :: browser where
  "durableSession = \<lparr>localStorage = \<lparr>entries = [(SESSION_KEY, sessionText True 0 0)], quota = 5000\<rparr>,
                      sessionStorage = \<lparr>entries = [], quota = 5000\<rparr>\<rparr>"

definition bothSessions :: browser where
  "bothSessions = \<lparr>localStorage = \<lparr>entries = [(SESSION_KEY, sessionText True 0 0)], quota = 5000\<rparr>,
                    sessionStorage = \<lparr>entries = [(SESSION_KEY, sessionText False 0 0)], quota = 5000\<rparr>\<rparr>"

definition shadowedSession :: browser where
  "shadowedSession =
     \<lparr>localStorage = \<lparr>entries = [(SESSION_KEY, sessionText True 0 0)], quota = 5000\<rparr>,
      sessionStorage = \<lparr>entries = [(SESSION_KEY, sessionText False 2592000001 2592000001)],
                        quota = 5000\<rparr>\<rparr>"

definition firstPost :: "(string \<times> jsval) list" where
  "firstPost =
     [(''title'', JStr ''First''), (''id'', JStr ''first-2024-01-01''), (''slug'', JStr ''first''),
      (''createdAt'', JNum 1704067200000), (''updatedAt'', JNum 1704067200000),
      (''readTime'', JNum 1), (''excerpt'', JStr [])]"

definition oneStored :: browser where
  "oneStored = stateAfter emptyBrowser (savePost emptyBrowser 1704067200000 [(''title'', JStr ''First'')])"

section \<open>Properties of generateSlug\<close>

lemma replaceEach_empty_filter: "replaceEach P [] s = filter (\<lambda>c. \<not> P c) s"
  by (induction s) auto

lemma replaceRuns_collapseWhitespace: "replaceRuns isWhiteSpace ''-'' s = collapseWhitespace s"
proof (induction s rule: collapseWhitespace.induct)
  case (3 a b r)
  then show ?case by auto
qed simp_all

lemma replaceRuns_collapseHyphens:
  "replaceRuns (\<lambda>c. c = CHR ''-'') ''-'' s = collapseHyphens s"
proof (induction s rule: collapseHyphens.induct)
  case (1 a b r)
  then show ?case by auto
qed auto

lemma substring_0: "substring s 0 n = take n s"
  by (simp add: substring_def)

lemma generateSlug_eq_spec: "generateSlug title = generateSlug_spec title"
  by (simp add: generateSlug_def generateSlug_spec_def substring_0 replaceEach_empty_filter
      replaceRuns_collapseWhitespace replaceRuns_collapseHyphens trim_def toLowerCase_def)

text \<open>
  Claim C7. \<^verbatim>\<open>generateSlug\<close> is the function the specification describes: on every title
  it returns the result of lowercasing, trimming, stripping the characters outside
  \<open>[\w\s-]\<close>, collapsing whitespace runs to single hyphens, collapsing repeated hyphens
  and truncating to 60 characters; and the title \<open>Hello, World! 2024\<close> has the slug
  \<open>hello-world-2024\<close>.
\<close>

theorem generateSlug_refines_spec:
  "generateSlug title = generateSlug_spec title
   \<and> generateSlug ''Hello, World! 2024'' = ''hello-world-2024''"
proof
  show "generateSlug title = generateSlug_spec title"
    by (rule generateSlug_eq_spec)
  show "generateSlug ''Hello, World! 2024'' = ''hello-world-2024''"
    by code_simp
qed

lemma toLowerChar_not_upper: "\<not> isUpper (toLowerChar c)"
  by (auto simp: isUpper_def toLowerChar_def code_def)

lemma hyphen_code: "code CHR ''-'' = 45"
  by (simp add: code_def)

lemma slug_char_after_strip:
  "\<not> isUpper c \<Longrightarrow> isWordChar c \<or> isWhiteSpace c \<or> c = CHR ''-'' \<Longrightarrow> \<not> isWhiteSpace c
   \<Longrightarrow> isSlugChar c"
  by (auto simp: isUpper_def isWordChar_def isSlugChar_def)

lemma isSlugChar_hyphen: "isSlugChar CHR ''-''"
  by (simp add: isSlugChar_def)

lemma collapseWhitespace_chars:
  "\<forall>c \<in> set s. \<not> isUpper c \<and> (isWordChar c \<or> isWhiteSpace c \<or> c = CHR ''-'')
   \<Longrightarrow> \<forall>c \<in> set (collapseWhitespace s). isSlugChar c"
  by (induction s rule: collapseWhitespace.induct) (auto simp: isSlugChar_hyphen slug_char_after_strip)

lemma collapseHyphens_subset: "set (collapseHyphens s) \<subseteq> set s"
  by (induction s rule: collapseHyphens.induct) auto

lemma collapseHyphens_head: "\<exists>r'. collapseHyphens (b # r) = b # r'"
  by (induction r arbitrary: b) auto

lemma collapseHyphens_noDouble: "noDoubleHyphen (collapseHyphens s)"
proof (induction s rule: collapseHyphens.induct)
  case (1 a b r)
  obtain r' where r': "collapseHyphens (b # r) = b # r'"
    using collapseHyphens_head by blast
  with 1 show ?case by auto
qed auto

lemma noDoubleHyphen_take: "noDoubleHyphen s \<Longrightarrow> noDoubleHyphen (take n s)"
proof (induction s arbitrary: n rule: noDoubleHyphen.induct)
  case (1 a b r)
  show ?case
  proof (cases n)
    case 0
    then show ?thesis by simp
  next
    case (Suc m)
    show ?thesis
    proof (cases m)
      case 0
      with Suc show ?thesis by simp
    next
      case (Suc k)
      from 1 have "noDoubleHyphen (take m (b # r))" by simp
      with 1(2) \<open>n = Suc m\<close> Suc show ?thesis by simp
    qed
  qed
qed (auto simp: take_Cons split: nat.splits)

lemma generateSlug_chars: "\<forall>c \<in> set (generateSlug t). isSlugChar c"
proof -
  let ?a = "rev (dropWhile isWhiteSpace (rev (dropWhile isWhiteSpace (map toLowerChar t))))"
  let ?b = "filter (\<lambda>c. isWordChar c \<or> isWhiteSpace c \<or> c = CHR ''-'') ?a"
  have "set ?a \<subseteq> set (map toLowerChar t)"
    by (auto dest!: set_dropWhileD)
  then have "\<forall>c \<in> set ?a. \<not> isUpper c"
    using toLowerChar_not_upper by auto
  then have "\<forall>c \<in> set ?b. \<not> isUpper c \<and> (isWordChar c \<or> isWhiteSpace c \<or> c = CHR ''-'')"
    by auto
  then have "\<forall>c \<in> set (collapseWhitespace ?b). isSlugChar c"
    by (rule collapseWhitespace_chars)
  then have "\<forall>c \<in> set (take 60 (collapseHyphens (collapseWhitespace ?b))). isSlugChar c"
    using collapseHyphens_subset set_take_subset by fast
  then show ?thesis
    by (simp add: generateSlug_eq_spec generateSlug_spec_def)
qed

lemma generateSlug_noDouble: "noDoubleHyphen (generateSlug t)"
  by (simp add: generateSlug_eq_spec generateSlug_spec_def noDoubleHyphen_take
      collapseHyphens_noDouble)

lemma generateSlug_length: "length (generateSlug t) \<le> 60"
  by (simp add: generateSlug_eq_spec generateSlug_spec_def)

lemma isSlugChar_lower: "isSlugChar c \<Longrightarrow> toLowerChar c = c"
  by (auto simp: isSlugChar_def toLowerChar_def hyphen_code)

lemma isSlugChar_not_ws: "isSlugChar c \<Longrightarrow> \<not> isWhiteSpace c"
  by (auto simp: isSlugChar_def isWhiteSpace_def hyphen_code)

lemma isSlugChar_keep: "isSlugChar c \<Longrightarrow> isWordChar c \<or> isWhiteSpace c \<or> c = CHR ''-''"
  by (auto simp: isSlugChar_def isWordChar_def)

lemma dropWhile_none: "\<forall>c \<in> set s. \<not> P c \<Longrightarrow> dropWhile P s = s"
  by (cases s) auto

lemma collapseWhitespace_id: "\<forall>c \<in> set s. \<not> isWhiteSpace c \<Longrightarrow> collapseWhitespace s = s"
  by (induction s rule: collapseWhitespace.induct) auto

lemma collapseHyphens_id: "noDoubleHyphen s \<Longrightarrow> collapseHyphens s = s"
  by (induction s rule: collapseHyphens.induct) auto

lemma generateSlug_fixpoint:
  assumes "\<forall>c \<in> set s. isSlugChar c" and "noDoubleHyphen s" and "length s \<le> 60"
  shows "generateSlug s = s"
proof -
  have lower: "map toLowerChar s = s"
    using assms(1) by (simp add: isSlugChar_lower map_idI)
  have nows: "\<forall>c \<in> set s. \<not> isWhiteSpace c"
    using assms(1) isSlugChar_not_ws by blast
  then have nows': "\<forall>c \<in> set (rev s). \<not> isWhiteSpace c" by simp
  have tr: "rev (dropWhile isWhiteSpace (rev (dropWhile isWhiteSpace s))) = s"
    using dropWhile_none [OF nows] dropWhile_none [OF nows'] by simp
  have keep: "filter (\<lambda>c. isWordChar c \<or> isWhiteSpace c \<or> c = CHR ''-'') s = s"
    using assms(1) isSlugChar_keep by (simp add: filter_id_conv)
  show ?thesis
    using assms(2,3)
    by (simp add: generateSlug_eq_spec generateSlug_spec_def lower tr keep
        collapseWhitespace_id [OF nows] collapseHyphens_id)
qed

text \<open>
  Claim C8. \<^verbatim>\<open>generateSlug\<close> is idempotent: for every title \<open>t\<close>, the slug of the slug of
  \<open>t\<close> is the slug of \<open>t\<close>.
\<close>

theorem generateSlug_idempotent: "generateSlug (generateSlug t) = generateSlug t"
  by (rule generateSlug_fixpoint [OF generateSlug_chars generateSlug_noDouble generateSlug_length])

lemma code_char_of_int: "0 \<le> d \<Longrightarrow> d < 256 \<Longrightarrow> code (char_of (d :: int)) = nat d"
proof -
  assume d: "0 \<le> d" "d < 256"
  have "(of_char (char_of d) :: int) = d" using d by simp
  moreover have "(of_char (char_of d) :: int) = int (code (char_of d))"
    by (simp add: code_def of_nat_of_char)
  ultimately show ?thesis by simp
qed

lemma digitChar_code: "0 \<le> d \<Longrightarrow> d < 10 \<Longrightarrow> code (digitChar d) = nat (48 + d)"
  by (simp add: digitChar_def code_char_of_int)

lemma digitChar_isDigit: "0 \<le> d \<Longrightarrow> d < 10 \<Longrightarrow> isDigit (digitChar d)"
  unfolding isDigit_def by (simp add: digitChar_code) linarith

lemma showDigits_digits: "0 \<le> n \<Longrightarrow> \<forall>c \<in> set (showDigits n). isDigit c"
proof (induction n rule: showDigits.induct)
  case (1 n)
  show ?case
  proof (cases "n < 10")
    case True
    with 1(2) show ?thesis by (subst showDigits.simps) (simp add: digitChar_isDigit)
  next
    case False
    with 1 show ?thesis by (subst showDigits.simps) (simp add: digitChar_isDigit)
  qed
qed

lemma showDigits_nonempty: "showDigits n \<noteq> []"
  by (subst showDigits.simps) simp

lemma readInt_snoc: "readInt (ds @ [d]) = 10 * readInt ds + (int (code d) - 48)"
  by (simp add: readInt_def)

lemma readInt_showDigits: "0 \<le> n \<Longrightarrow> readInt (showDigits n) = n"
proof (induction n rule: showDigits.induct)
  case (1 n)
  show ?case
  proof (cases "n < 10")
    case True
    with 1(2) show ?thesis by (subst showDigits.simps) (simp add: readInt_def digitChar_code)
  next
    case False
    with 1 show ?thesis by (subst showDigits.simps) (simp add: readInt_snoc digitChar_code)
  qed
qed

lemma digitChar_0: "digitChar 0 = CHR ''0''"
  by code_simp

lemma showDigits_hd_zero: "0 \<le> n \<Longrightarrow> hd (showDigits n) = CHR ''0'' \<Longrightarrow> n = 0"
proof (induction n rule: showDigits.induct)
  case (1 n)
  show ?case
  proof (cases "n < 10")
    case True
    with 1(3) have "digitChar n = CHR ''0''" by (subst (asm) showDigits.simps) simp
    then have "code (digitChar n) = code (CHR ''0'')" by simp
    with True 1(2) show ?thesis by (simp add: digitChar_code) (simp add: code_def)
  next
    case False
    with 1(3) have "hd (showDigits (n div 10)) = CHR ''0''"
      by (subst (asm) showDigits.simps) (simp add: showDigits_nonempty)
    with 1(1) False 1(2) have "n div 10 = 0" by simp
    with False 1(2) show ?thesis by simp
  qed
qed

lemma showDigits_0: "showDigits 0 = ''0''"
  by (subst showDigits.simps) (simp add: digitChar_0)

lemma takeWhile_digits: "\<forall>c \<in> set ds. isDigit c \<Longrightarrow> okRest r \<Longrightarrow> takeWhile isDigit (ds @ r) = ds"
  by (cases r) (auto simp: okRest_def takeWhile_append)

lemma dropWhile_digits: "\<forall>c \<in> set ds. isDigit c \<Longrightarrow> okRest r \<Longrightarrow> dropWhile isDigit (ds @ r) = r"
  by (cases r) (auto simp: okRest_def dropWhile_append)

lemma parseDigits_showDigits:
  assumes "okRest r" "0 \<le> n"
  shows "parseDigits (showDigits n @ r) = Some (n, r)"
proof -
  obtain c cs where cs: "showDigits n = c # cs"
    using showDigits_nonempty by (cases "showDigits n") auto
  have dig: "\<forall>c \<in> set (showDigits n). isDigit c" by (rule showDigits_digits [OF assms(2)])
  show ?thesis
  proof (cases "c = CHR ''0''")
    case True
    then have "n = 0" using showDigits_hd_zero [OF assms(2)] cs by simp
    then show ?thesis by (simp add: parseDigits_def showDigits_0 isDigit_def code_def)
  next
    case False
    have "isDigit c" using dig cs by simp
    moreover have "readInt (c # cs) = n"
      using readInt_showDigits [OF assms(2)] cs by simp
    ultimately show ?thesis
      using False cs takeWhile_digits [OF dig assms(1)] dropWhile_digits [OF dig assms(1)]
      by (simp add: parseDigits_def)
  qed
qed

lemma okRest_not_fraction: "okRest r \<Longrightarrow> \<not> startsFraction r"
  by (cases r) (auto simp: okRest_def startsFraction_def)

lemma minus_not_digit: "\<not> isDigit CHR ''-''"
  by (simp add: isDigit_def code_def)

lemma parseNumber_showInt:
  assumes "okRest r"
  shows "parseNumber (showInt i @ r) = Some (i, r)"
proof (cases "i < 0")
  case True
  then have "0 \<le> - i" by simp
  from parseDigits_showDigits [OF assms this] True show ?thesis
    by (simp add: parseNumber_def showInt_def okRest_not_fraction [OF assms])
next
  case False
  then have nn: "0 \<le> i" by simp
  obtain c cs where cs: "showDigits i = c # cs"
    using showDigits_nonempty by (cases "showDigits i") auto
  have "isDigit c" using showDigits_digits [OF nn] cs by simp
  then have "c \<noteq> CHR ''-''" using minus_not_digit by auto
  moreover have "parseDigits (c # cs @ r) = Some (i, r)"
    using parseDigits_showDigits [OF assms nn] cs by simp
  ultimately show ?thesis
    using False cs by (simp add: parseNumber_def showInt_def okRest_not_fraction [OF assms])
qed

lemma hexVal_hexDigit: "d < 16 \<Longrightarrow> hexVal (hexDigit d) = Some d"
  by (auto simp: hexVal_def hexDigit_def code_def)

lemma code_inject: "code a = code b \<Longrightarrow> a = b"
  by (simp add: code_def)

lemma char_of_code: "char_of (code c) = c"
  by (simp add: code_def)

lemma parseChars_escape:
  assumes "parseChars r = Some (t, rest)"
  shows "parseChars (escapeChar c @ r) = Some (c # t, rest)"
proof -
  have q: "code (CHR 0x22) = 34" and b: "code (CHR 0x5C) = 92"
    by (simp_all add: code_def)
  consider (c8) "code c = 8" | (c9) "code c = 9" | (c10) "code c = 10" | (c12) "code c = 12"
    | (c13) "code c = 13" | (c34) "code c = 34" | (c92) "code c = 92"
    | (low) "code c < 32" "code c \<notin> {8, 9, 10, 12, 13}" | (plain) "32 \<le> code c" "code c \<noteq> 34" "code c \<noteq> 92"
    by fastforce
  then show ?thesis
  proof cases
    case c8
    then have "c = CHR 0x08" by (intro code_inject) (simp add: code_def)
    with assms show ?thesis by (simp add: escapeChar_def unescape_def code_def)
  next
    case c9
    then have "c = CHR 0x09" by (intro code_inject) (simp add: code_def)
    with assms show ?thesis by (simp add: escapeChar_def unescape_def code_def)
  next
    case c10
    then have "c = CHR 0x0A" by (intro code_inject) (simp add: code_def)
    with assms show ?thesis by (simp add: escapeChar_def unescape_def code_def)
  next
    case c12
    then have "c = CHR 0x0C" by (intro code_inject) (simp add: code_def)
    with assms show ?thesis by (simp add: escapeChar_def unescape_def code_def)
  next
    case c13
    then have "c = CHR 0x0D" by (intro code_inject) (simp add: code_def)
    with assms show ?thesis by (simp add: escapeChar_def unescape_def code_def)
  next
    case c34
    then have "c = CHR 0x22" by (intro code_inject) (simp add: code_def)
    with assms show ?thesis by (simp add: escapeChar_def unescape_def code_def)
  next
    case c92
    then have "c = CHR 0x5C" by (intro code_inject) (simp add: code_def)
    with assms show ?thesis by (simp add: escapeChar_def unescape_def code_def)
  next
    case low
    have d1: "code c div 16 < 16" and d0: "code c mod 16 < 16" using low(1) by auto
    have z: "hexVal CHR ''0'' = Some 0" by (simp add: hexVal_def code_def)
    have "char_of (16 * (code c div 16) + code c mod 16) = c"
      by (simp add: char_of_code)
    with assms low show ?thesis
      by (simp add: escapeChar_def hexVal_hexDigit [OF d1] hexVal_hexDigit [OF d0] z)
  next
    case plain
    then have "c \<noteq> CHR 0x22" "c \<noteq> CHR 0x5C" using q b by auto
    with assms plain show ?thesis by (simp add: escapeChar_def)
  qed
qed

lemma parseChars_escaped:
  "parseChars (concat (map escapeChar s) @ CHR 0x22 # rest) = Some (s, rest)"
  by (induction s) (simp_all add: parseChars_escape)

lemma parseChars_quoteJSON: "quoteJSON s @ rest = CHR 0x22 # concat (map escapeChar s) @ CHR 0x22 # rest"
  by (simp add: quoteJSON_def)


lemma wsOnly_simps [simp]: "wsOnly []" "wsOnly (a @ b) = (wsOnly a \<and> wsOnly b)"
  "wsOnly (c # s) = (isJsonWs c \<and> wsOnly s)"
  by (auto simp: wsOnly_def)

lemma skipWs_ws: "wsOnly ws \<Longrightarrow> skipWs (ws @ s) = skipWs s"
  by (induction ws) (auto simp: skipWs_def)

lemma skipWs_start: "\<not> isJsonWs c \<Longrightarrow> skipWs (c # s) = c # s"
  by (simp add: skipWs_def)

lemma valueStart_facts:
  assumes "valueStart c"
  shows "\<not> isJsonWs c" "c \<noteq> CHR '']''" "c \<noteq> CHR ''}''"
  using assms by (auto simp: valueStart_def isJsonWs_def isDigit_def code_def)

lemma isJSON_serialize_Some: "isJSON v \<Longrightarrow> \<exists>s. serializeJSON gap ind v = Some s"
  by (cases v) auto

lemma showInt_start: "\<exists>c r. showInt i = c # r \<and> (c = CHR ''-'' \<or> isDigit c)"
proof (cases "i < 0")
  case True
  then show ?thesis by (simp add: showInt_def)
next
  case False
  then have nn: "0 \<le> i" by simp
  obtain c cs where cs: "showDigits i = c # cs"
    using showDigits_nonempty by (cases "showDigits i") auto
  then have "isDigit c" using showDigits_digits [OF nn] by simp
  with False cs show ?thesis by (simp add: showInt_def)
qed

lemma serialize_start:
  assumes "serializeJSON gap ind v = Some s"
  shows "\<exists>c r. s = c # r \<and> valueStart c"
proof (cases v)
  case (JNum i)
  with assms showInt_start [of i] show ?thesis by (auto simp: valueStart_def)
next
  case (JArr xs)
  with assms show ?thesis by (auto simp: valueStart_def wrapItems_def)
next
  case (JObj kvs)
  with assms show ?thesis by (auto simp: valueStart_def wrapItems_def)
qed (use assms in \<open>auto simp: valueStart_def quoteJSON_def\<close>)

lemma wrapItems_form:
  assumes "items \<noteq> []" "wsOnly gap" "wsOnly ind"
  shows "\<exists>A B. wsOnly A \<and> wsOnly B
           \<and> wrapItems [opn] [cls] gap ind items = opn # A @ joinWith (CHR '','' # A) items @ B @ [cls]"
proof (cases "gap = []")
  case True
  with assms(1) have "wrapItems [opn] [cls] gap ind items = opn # [] @ joinWith (CHR '','' # []) items @ [] @ [cls]"
    by (simp add: wrapItems_def)
  then show ?thesis using wsOnly_simps(1) by blast
next
  case False
  let ?A = "CHR 0x0A # ind @ gap" and ?B = "CHR 0x0A # ind"
  have nl: "isJsonWs (CHR 0x0A)" by (simp add: isJsonWs_def code_def)
  from False assms(1) have "wrapItems [opn] [cls] gap ind items = opn # ?A @ joinWith (CHR '','' # ?A) items @ ?B @ [cls]"
    by (simp add: wrapItems_def)
  moreover have "wsOnly ?A" "wsOnly ?B" using assms nl by simp_all
  ultimately show ?thesis by blast
qed

lemma okRest_comma: "okRest (CHR '','' # r)"
  by (simp add: okRest_def isDigit_def code_def)

lemma okRest_close:
  assumes "wsOnly B" "cls = CHR '']'' \<or> cls = CHR ''}''"
  shows "okRest (B @ cls # r)"
proof (cases B)
  case Nil
  with assms(2) show ?thesis by (auto simp: okRest_def isDigit_def code_def)
next
  case (Cons b bs)
  with assms(1) have "isJsonWs b" by simp
  then show ?thesis using Cons by (auto simp: okRest_def isJsonWs_def isDigit_def code_def)
qed

lemma skipWs_close:
  assumes "wsOnly B" "cls = CHR '']'' \<or> cls = CHR ''}''"
  shows "skipWs (B @ cls # r) = cls # r"
proof -
  have "\<not> isJsonWs cls" using assms(2) by (auto simp: isJsonWs_def code_def)
  then show ?thesis using skipWs_ws [OF assms(1)] by (simp add: skipWs_start)
qed

lemma skipWs_comma: "skipWs (CHR '','' # r) = CHR '','' # r"
  by (simp add: skipWs_def isJsonWs_def code_def)

lemma parseElements_items:
  assumes IH: "\<And>x ws rest n. x \<in> set xs \<Longrightarrow> wsOnly ws \<Longrightarrow> okRest rest \<Longrightarrow> fuel x \<le> n
                 \<Longrightarrow> parseValue n (ws @ f x @ rest) = Some (x, rest)"
    and "xs \<noteq> []" "wsOnly A" "wsOnly B" "sum_list (map (\<lambda>x. Suc (fuel x)) xs) \<le> n"
  shows "parseElements n (A @ joinWith (CHR '','' # A) (map f xs) @ B @ CHR '']'' # rest) = Some (xs, rest)"
  using assms
proof (induction xs arbitrary: n)
  case Nil
  then show ?case by simp
next
  case (Cons x xs)
  from Cons.prems(5) obtain m where n: "n = Suc m" and mx: "fuel x \<le> m"
    and mxs: "sum_list (map (\<lambda>x. Suc (fuel x)) xs) \<le> m"
    by (cases n) auto
  show ?case
  proof (cases xs)
    case Nil
    have "parseValue m (A @ f x @ (B @ CHR '']'' # rest)) = Some (x, B @ CHR '']'' # rest)"
      using Cons.prems(1) [of x A "B @ CHR '']'' # rest" m] Cons.prems(3,4) mx
      by (simp add: okRest_close)
    then show ?thesis
      using Nil n Cons.prems(4) by (simp add: skipWs_close)
  next
    case (Cons y ys)
    let ?tail = "joinWith (CHR '','' # A) (map f xs) @ B @ CHR '']'' # rest"
    have v: "parseValue m (A @ f x @ (CHR '','' # A @ ?tail)) = Some (x, CHR '','' # A @ ?tail)"
      using Cons.prems(1) [of x A "CHR '','' # A @ ?tail" m] Cons.prems(3) mx
      by (simp add: okRest_comma)
    have e: "parseElements m (A @ ?tail) = Some (xs, rest)"
      using Cons.IH [of m] Cons.prems(1,3,4) mxs Cons by simp
    show ?thesis
      using v e n Cons by (simp add: skipWs_comma)
  qed
qed

lemma skipWs_quote: "skipWs (CHR 0x22 # r) = CHR 0x22 # r"
  by (simp add: skipWs_def isJsonWs_def code_def)

lemma skipWs_colon: "skipWs (CHR '':'' # r) = CHR '':'' # r"
  by (simp add: skipWs_def isJsonWs_def code_def)

lemma parseMembers_head:
  assumes "wsOnly A" "wsOnly sp"
    and "parseValue m (sp @ t @ rest') = Some (v, rest')"
  shows "parseMembers (Suc m) (A @ (quoteJSON k @ CHR '':'' # sp @ t) @ rest') =
           (case skipWs rest' of
              [] \<Rightarrow> None
            | e # r4 \<Rightarrow>
                if e = CHR '','' then
                  (case parseMembers m r4 of
                     None \<Rightarrow> None
                   | Some (ms, rest) \<Rightarrow> Some ((k, v) # ms, rest))
                else if e = CHR ''}'' then Some ([(k, v)], r4)
                else None)"
proof -
  have "skipWs (A @ (quoteJSON k @ CHR '':'' # sp @ t) @ rest')
          = CHR 0x22 # concat (map escapeChar k) @ CHR 0x22 # (CHR '':'' # sp @ t @ rest')"
    using skipWs_ws [OF assms(1)] by (simp add: quoteJSON_def skipWs_quote)
  then show ?thesis
    using assms(3) by (simp add: parseChars_escaped skipWs_colon)
qed

lemma parseMembers_items:
  assumes IH: "\<And>v ws rest n. v \<in> snd ` set kvs \<Longrightarrow> wsOnly ws \<Longrightarrow> okRest rest \<Longrightarrow> fuel v \<le> n
                 \<Longrightarrow> parseValue n (ws @ g v @ rest) = Some (v, rest)"
    and "kvs \<noteq> []" "wsOnly A" "wsOnly B" "wsOnly sp"
    and "sum_list (map (\<lambda>kv. Suc (fuel (snd kv))) kvs) \<le> n"
  shows "parseMembers n (A @ joinWith (CHR '','' # A)
             (map (\<lambda>kv. quoteJSON (fst kv) @ CHR '':'' # sp @ g (snd kv)) kvs) @ B @ CHR ''}'' # rest)
           = Some (kvs, rest)"
  using assms
proof (induction kvs arbitrary: n)
  case Nil
  then show ?case by simp
next
  case (Cons kv kvs)
  obtain k v where kv: "kv = (k, v)" by (cases kv)
  from Cons.prems(6) kv obtain m where n: "n = Suc m" and mx: "fuel v \<le> m"
    and mxs: "sum_list (map (\<lambda>kv. Suc (fuel (snd kv))) kvs) \<le> m"
    by (cases n) auto
  show ?case
  proof (cases kvs)
    case Nil
    have "parseValue m (sp @ g v @ (B @ CHR ''}'' # rest)) = Some (v, B @ CHR ''}'' # rest)"
      using Cons.prems(1) [of v sp "B @ CHR ''}'' # rest" m] Cons.prems(4,5) mx kv
      by (simp add: okRest_close)
    from parseMembers_head [OF Cons.prems(3) Cons.prems(5) this, of k]
    show ?thesis
      using Nil n kv Cons.prems(4) by (simp add: skipWs_close)
  next
    case (Cons y ys)
    let ?tail = "joinWith (CHR '','' # A)
       (map (\<lambda>kv. quoteJSON (fst kv) @ CHR '':'' # sp @ g (snd kv)) kvs) @ B @ CHR ''}'' # rest"
    have v: "parseValue m (sp @ g v @ (CHR '','' # A @ ?tail)) = Some (v, CHR '','' # A @ ?tail)"
      using Cons.prems(1) [of v sp "CHR '','' # A @ ?tail" m] Cons.prems(5) mx kv
      by (simp add: okRest_comma)
    have ih: "\<And>v ws rest n. v \<in> snd ` set kvs \<Longrightarrow> wsOnly ws \<Longrightarrow> okRest rest \<Longrightarrow> fuel v \<le> n
                 \<Longrightarrow> parseValue n (ws @ g v @ rest) = Some (v, rest)"
      by (rule Cons.prems(1)) simp_all
    have ne: "kvs \<noteq> []" using Cons by simp
    have e: "parseMembers m (A @ ?tail) = Some (kvs, rest)"
      by (rule Cons.IH [OF ih ne Cons.prems(3,4,5) mxs])
    from parseMembers_head [OF Cons.prems(3) Cons.prems(5) v, of k]
    show ?thesis
      using e n kv Cons by (simp add: skipWs_comma)
  qed
qed

lemma defineAll_distinct_aux:
  "distinct (map fst (acc @ ms)) \<Longrightarrow> foldl (\<lambda>acc (k, v). AList.update k v acc) acc ms = acc @ ms"
proof (induction ms arbitrary: acc)
  case Nil
  then show ?case by simp
next
  case (Cons kv ms)
  obtain k v where kv: "kv = (k, v)" by (cases kv)
  from Cons.prems kv have "k \<notin> fst ` set acc" by auto
  then have "AList.update k v acc = acc @ [(k, v)]"
    by (induction acc) auto
  with Cons.IH [of "acc @ [kv]"] Cons.prems kv show ?case by simp
qed

lemma defineAll_distinct: "distinct (map fst ms) \<Longrightarrow> defineAll ms = ms"
  using defineAll_distinct_aux [of "[]" ms] by (simp add: defineAll_def)

lemma member_items:
  "list_all (\<lambda>kv. isJSON (snd kv)) kvs \<Longrightarrow>
   concat (map (\<lambda>(k, v). memberText gap k (serializeJSON gap ind v)) kvs)
     = map (\<lambda>kv. quoteJSON (fst kv) @ CHR '':'' # (if gap = [] then [] else '' '')
                   @ elementText (serializeJSON gap ind (snd kv))) kvs"
proof (induction kvs)
  case Nil
  then show ?case by simp
next
  case (Cons kv kvs)
  obtain k v where kv: "kv = (k, v)" by (cases kv)
  with Cons.prems obtain s where "serializeJSON gap ind v = Some s"
    using isJSON_serialize_Some [of v gap ind] by auto
  with Cons kv show ?case by (simp add: memberText_def elementText_def)
qed

lemma parseValue_scalar_start:
  assumes "c = CHR ''-'' \<or> isDigit c"
  shows "parseValue (Suc m) (ws @ c # r) =
           (if wsOnly ws then (case parseNumber (c # r) of None \<Rightarrow> None | Some (i, rest) \<Rightarrow> Some (JNum i, rest))
            else parseValue (Suc m) (ws @ c # r))"
proof (cases "wsOnly ws")
  case True
  have nws: "\<not> isJsonWs c" using assms by (auto simp: isJsonWs_def isDigit_def code_def)
  have ne: "c \<noteq> CHR 0x22" "c \<noteq> CHR ''[''" "c \<noteq> CHR ''{''" "c \<noteq> CHR ''n''" "c \<noteq> CHR ''t''" "c \<noteq> CHR ''f''"
    using assms by (auto simp: isDigit_def code_def)
  have "skipWs (ws @ c # r) = c # r"
    using skipWs_ws [OF True] nws by (simp add: skipWs_start)
  then show ?thesis using True ne by simp
next
  case False
  then show ?thesis by simp
qed

lemma parseValue_serialize:
  "wsOnly gap \<Longrightarrow> wsOnly ind \<Longrightarrow> isJSON v \<Longrightarrow> serializeJSON gap ind v = Some s \<Longrightarrow> wsOnly ws
   \<Longrightarrow> okRest rest \<Longrightarrow> fuel v \<le> n \<Longrightarrow> parseValue n (ws @ s @ rest) = Some (v, rest)"
proof (induction gap ind v arbitrary: s ws rest n rule: serializeJSON.induct)
  case (1 gap ind)
  then show ?case by simp
next
  case (2 gap ind)
  from 2(7) obtain m where n: "n = Suc m" by (cases n) auto
  have s: "s = ''null''" using 2(4) by simp
  have "skipWs (ws @ ''null'' @ rest) = ''null'' @ rest"
    using skipWs_ws [OF 2(5)] by (simp add: skipWs_def isJsonWs_def code_def)
  then show ?case unfolding s n by simp
next
  case (3 gap ind b)
  from 3(7) obtain m where n: "n = Suc m" by (cases n) auto
  have "skipWs (ws @ ''true'' @ rest) = ''true'' @ rest" "skipWs (ws @ ''false'' @ rest) = ''false'' @ rest"
    using skipWs_ws [OF 3(5)] by (simp_all add: skipWs_def isJsonWs_def code_def)
  moreover have s: "s = (if b then ''true'' else ''false'')" using 3(4) by simp
  ultimately show ?case unfolding s n by (cases b) simp_all
next
  case (4 gap ind i)
  from 4(7) obtain m where n: "n = Suc m" by (cases n) auto
  obtain c r where cr: "showInt i = c # r" "c = CHR ''-'' \<or> isDigit c"
    using showInt_start by blast
  have "parseNumber (c # r @ rest) = Some (i, rest)"
    using parseNumber_showInt [OF 4(6), of i] cr(1) by simp
  moreover have s: "s = c # r" using 4(4) cr(1) by simp
  ultimately show ?case unfolding s n
    using parseValue_scalar_start [OF cr(2), of m ws "r @ rest"] 4(5) by simp
next
  case (5 gap ind t)
  from 5(7) obtain m where n: "n = Suc m" by (cases n) auto
  have "skipWs (ws @ quoteJSON t @ rest) = CHR 0x22 # concat (map escapeChar t) @ CHR 0x22 # rest"
    using skipWs_ws [OF 5(5)] by (simp add: quoteJSON_def skipWs_quote)
  moreover have s: "s = quoteJSON t" using 5(4) by simp
  ultimately show ?case unfolding s n by (simp add: parseChars_escaped)
next
  case (6 gap ind xs)
  from 6(8) obtain m where n: "n = Suc m" and m: "sum_list (map (\<lambda>x. Suc (fuel x)) xs) \<le> m"
    by (cases n) auto
  let ?f = "\<lambda>x. elementText (serializeJSON gap (ind @ gap) x)"
  have s: "s = wrapItems ''['' '']'' gap ind (map ?f xs)" using 6(5) by simp
  have open_ws: "\<not> isJsonWs (CHR ''['')" by (simp add: isJsonWs_def code_def)
  show ?case
  proof (cases xs)
    case Nil
    have "skipWs (ws @ ''[]'' @ rest) = ''[]'' @ rest"
      using skipWs_ws [OF 6(6)] by (simp add: skipWs_def isJsonWs_def code_def)
    moreover have "skipWs ('']'' @ rest) = '']'' @ rest"
      by (simp add: skipWs_def isJsonWs_def code_def)
    ultimately show ?thesis using Nil s n by (simp add: wrapItems_def)
  next
    case (Cons y ys)
    then have ne: "map ?f xs \<noteq> []" by simp
    obtain A B where AB: "wsOnly A" "wsOnly B"
      "wrapItems ''['' '']'' gap ind (map ?f xs) = CHR ''['' # A @ joinWith (CHR '','' # A) (map ?f xs) @ B @ '']''"
      using wrapItems_form [OF ne 6(2) 6(3), of "CHR ''[''" "CHR '']''"] by auto
    have vals: "\<And>x ws rest n. x \<in> set xs \<Longrightarrow> wsOnly ws \<Longrightarrow> okRest rest \<Longrightarrow> fuel x \<le> n
                 \<Longrightarrow> parseValue n (ws @ ?f x @ rest) = Some (x, rest)"
    proof -
      fix x ws rest n
      assume x: "x \<in> set xs" and p: "wsOnly ws" "okRest rest" "fuel x \<le> n"
      have jx: "isJSON x" using 6(4) x by (simp add: list_all_iff)
      then obtain t where t: "serializeJSON gap (ind @ gap) x = Some t"
        using isJSON_serialize_Some by blast
      have "parseValue n (ws @ t @ rest) = Some (x, rest)"
        using 6(1) [OF x 6(2) _ jx t p] 6(2,3) by simp
      with t show "parseValue n (ws @ ?f x @ rest) = Some (x, rest)"
        by (simp add: elementText_def)
    qed
    have xne: "xs \<noteq> []" using Cons by simp
    have el: "parseElements m (A @ joinWith (CHR '','' # A) (map ?f xs) @ B @ CHR '']'' # rest) = Some (xs, rest)"
      by (rule parseElements_items [OF vals xne AB(1,2) m])
    obtain c r where fy: "?f y = c # r" "valueStart c"
    proof -
      have "isJSON y" using 6(4) Cons by simp
      then obtain t where t: "serializeJSON gap (ind @ gap) y = Some t"
        using isJSON_serialize_Some by blast
      with serialize_start [OF t] that show ?thesis by (auto simp: elementText_def)
    qed
    have hd_join: "\<exists>r'. joinWith (CHR '','' # A) (map ?f xs) = c # r'"
      using Cons fy(1) by (cases ys) auto
    then obtain r' where r': "joinWith (CHR '','' # A) (map ?f xs) = c # r'" by blast
    have sk: "skipWs (A @ joinWith (CHR '','' # A) (map ?f xs) @ B @ CHR '']'' # rest)
                = c # r' @ B @ CHR '']'' # rest"
      using skipWs_ws [OF AB(1)] valueStart_facts(1) [OF fy(2)] r' by (simp add: skipWs_start)
    have "skipWs (ws @ s @ rest) = CHR ''['' # A @ joinWith (CHR '','' # A) (map ?f xs) @ B @ CHR '']'' # rest"
      using skipWs_ws [OF 6(6)] s AB(3) open_ws by (simp add: skipWs_start)
    then show ?thesis
      using n sk el valueStart_facts(2) [OF fy(2)] by simp
  qed
next
  case (7 gap ind kvs)
  from 7(8) obtain m where n: "n = Suc m" and m: "sum_list (map (\<lambda>kv. Suc (fuel (snd kv))) kvs) \<le> m"
    by (cases n) auto
  let ?g = "\<lambda>v. elementText (serializeJSON gap (ind @ gap) v)"
  let ?sp = "if gap = [] then [] else '' ''"
  let ?items = "map (\<lambda>kv. quoteJSON (fst kv) @ CHR '':'' # ?sp @ ?g (snd kv)) kvs"
  have js: "list_all (\<lambda>kv. isJSON (snd kv)) kvs" and dist: "distinct (map fst kvs)"
    using 7(4) by simp_all
  have s: "s = wrapItems ''{'' ''}'' gap ind ?items"
    using 7(5) member_items [OF js, of gap "ind @ gap"] by simp
  have open_ws: "\<not> isJsonWs (CHR ''{'')" by (simp add: isJsonWs_def code_def)
  have sp: "wsOnly ?sp" by (simp add: isJsonWs_def code_def)
  show ?case
  proof (cases kvs)
    case Nil
    have "skipWs (ws @ ''{}'' @ rest) = ''{}'' @ rest"
      using skipWs_ws [OF 7(6)] by (simp add: skipWs_def isJsonWs_def code_def)
    moreover have "skipWs (''}'' @ rest) = ''}'' @ rest"
      by (simp add: skipWs_def isJsonWs_def code_def)
    ultimately show ?thesis using Nil s n by (simp add: wrapItems_def)
  next
    case (Cons y ys)
    then have ne: "?items \<noteq> []" by simp
    obtain A B where AB: "wsOnly A" "wsOnly B"
      "wrapItems ''{'' ''}'' gap ind ?items = CHR ''{'' # A @ joinWith (CHR '','' # A) ?items @ B @ ''}''"
      using wrapItems_form [OF ne 7(2) 7(3), of "CHR ''{''" "CHR ''}''"] by auto
    have vals: "\<And>v ws rest n. v \<in> snd ` set kvs \<Longrightarrow> wsOnly ws \<Longrightarrow> okRest rest \<Longrightarrow> fuel v \<le> n
                 \<Longrightarrow> parseValue n (ws @ ?g v @ rest) = Some (v, rest)"
    proof -
      fix v ws rest n
      assume v: "v \<in> snd ` set kvs" and p: "wsOnly ws" "okRest rest" "fuel v \<le> n"
      then obtain k where kv: "(k, v) \<in> set kvs" by auto
      have jv: "isJSON v" using js kv by (auto simp: list_all_iff)
      then obtain t where t: "serializeJSON gap (ind @ gap) v = Some t"
        using isJSON_serialize_Some by blast
      have "parseValue n (ws @ t @ rest) = Some (v, rest)"
        using 7(1) [OF kv refl 7(2) _ jv t p] 7(2,3) by simp
      with t show "parseValue n (ws @ ?g v @ rest) = Some (v, rest)"
        by (simp add: elementText_def)
    qed
    have kne: "kvs \<noteq> []" using Cons by simp
    have el: "parseMembers m (A @ joinWith (CHR '','' # A) ?items @ B @ CHR ''}'' # rest) = Some (kvs, rest)"
      by (rule parseMembers_items [OF vals kne AB(1,2) sp m])
    have "\<exists>r'. joinWith (CHR '','' # A) ?items = CHR 0x22 # r'"
      using Cons by (cases ys) (auto simp: quoteJSON_def)
    then obtain r' where r': "joinWith (CHR '','' # A) ?items = CHR 0x22 # r'" by blast
    have sk: "skipWs (A @ joinWith (CHR '','' # A) ?items @ B @ CHR ''}'' # rest)
                = CHR 0x22 # r' @ B @ CHR ''}'' # rest"
      using skipWs_ws [OF AB(1)] r' by (simp add: skipWs_quote)
    have "skipWs (ws @ s @ rest) = CHR ''{'' # A @ joinWith (CHR '','' # A) ?items @ B @ CHR ''}'' # rest"
      using skipWs_ws [OF 7(6)] s AB(3) open_ws by (simp add: skipWs_start)
    then show ?thesis
      using n sk el defineAll_distinct [OF dist] by simp
  qed
qed

lemma joinWith_length:
  "sep \<noteq> [] \<Longrightarrow> sum_list (map length items) + (length items - 1) \<le> length (joinWith sep items)"
proof (induction sep items rule: joinWith.induct)
  case (3 sep x y r)
  then show ?case by (cases sep) simp_all
qed simp_all

lemma wrapItems_length:
  "sum_list (map length items) + length items < length (wrapItems [opn] [cls] gap ind items)"
proof (cases items)
  case Nil
  then show ?thesis by (simp add: wrapItems_def)
next
  case (Cons x xs)
  have a: "sum_list (map length items) + (length items - 1) \<le> length (joinWith '','' items)"
    by (rule joinWith_length) simp
  have b: "sum_list (map length items) + (length items - 1)
             \<le> length (joinWith ([CHR '','', CHR 0x0A] @ ind @ gap) items)"
    by (rule joinWith_length) simp
  show ?thesis using Cons a b by (simp add: wrapItems_def)
qed

lemma sum_list_mono_map:
  "(\<And>x. x \<in> set xs \<Longrightarrow> f x \<le> (g x :: nat)) \<Longrightarrow> sum_list (map f xs) \<le> sum_list (map g xs)"
  by (induction xs) (auto intro: add_mono)

lemma fuel_le_length:
  "isJSON v \<Longrightarrow> serializeJSON gap ind v = Some s \<Longrightarrow> fuel v \<le> length s"
proof (induction gap ind v arbitrary: s rule: serializeJSON.induct)
  case (4 gap ind i)
  then show ?case using showInt_start [of i] by auto
next
  case (5 gap ind t)
  then show ?case by (auto simp: quoteJSON_def)
next
  case (6 gap ind xs)
  let ?f = "\<lambda>x. elementText (serializeJSON gap (ind @ gap) x)"
  have "\<And>x. x \<in> set xs \<Longrightarrow> Suc (fuel x) \<le> Suc (length (?f x))"
  proof -
    fix x assume x: "x \<in> set xs"
    have jx: "isJSON x" using 6(2) x by (simp add: list_all_iff)
    then obtain t where t: "serializeJSON gap (ind @ gap) x = Some t"
      using isJSON_serialize_Some by blast
    from 6(1) [OF x jx t] t show "Suc (fuel x) \<le> Suc (length (?f x))"
      by (simp add: elementText_def)
  qed
  then have "sum_list (map (\<lambda>x. Suc (fuel x)) xs) \<le> sum_list (map (\<lambda>x. Suc (length (?f x))) xs)"
    by (rule sum_list_mono_map)
  also have "\<dots> = sum_list (map length (map ?f xs)) + length (map ?f xs)"
    by (induction xs) simp_all
  also have "\<dots> < length (wrapItems ''['' '']'' gap ind (map ?f xs))"
    by (rule wrapItems_length)
  finally show ?case using 6(3) by auto
next
  case (7 gap ind kvs)
  let ?g = "\<lambda>v. elementText (serializeJSON gap (ind @ gap) v)"
  let ?sp = "if gap = [] then [] else '' ''"
  let ?h = "\<lambda>kv. quoteJSON (fst kv) @ CHR '':'' # ?sp @ ?g (snd kv)"
  have js: "list_all (\<lambda>kv. isJSON (snd kv)) kvs" using 7(2) by simp
  have s: "s = wrapItems ''{'' ''}'' gap ind (map ?h kvs)"
    using 7(3) member_items [OF js, of gap "ind @ gap"] by simp
  have "\<And>kv. kv \<in> set kvs \<Longrightarrow> Suc (fuel (snd kv)) \<le> Suc (length (?h kv))"
  proof -
    fix kv assume x: "kv \<in> set kvs"
    obtain k v where kv: "kv = (k, v)" by (cases kv)
    have jx: "isJSON v" using js x kv by (auto simp: list_all_iff)
    then obtain t where t: "serializeJSON gap (ind @ gap) v = Some t"
      using isJSON_serialize_Some by blast
    from 7(1) [OF x kv [symmetric] jx t] t kv show "Suc (fuel (snd kv)) \<le> Suc (length (?h kv))"
      by (simp add: elementText_def)
  qed
  then have "sum_list (map (\<lambda>kv. Suc (fuel (snd kv))) kvs) \<le> sum_list (map (\<lambda>kv. Suc (length (?h kv))) kvs)"
    by (rule sum_list_mono_map)
  also have "\<dots> = sum_list (map length (map ?h kvs)) + length (map ?h kvs)"
    by (induction kvs) simp_all
  also have "\<dots> < length (wrapItems ''{'' ''}'' gap ind (map ?h kvs))"
    by (rule wrapItems_length)
  finally show ?case using s by auto
qed auto

lemma okRest_Nil: "okRest []"
  by (simp add: okRest_def)

lemma JSON_parse_serialize:
  assumes "isJSON v" "wsOnly gap" "serializeJSON gap [] v = Some s"
  shows "JSON_parse s = Some v"
proof -
  have f: "fuel v \<le> Suc (length s)"
    using fuel_le_length [OF assms(1,3)] by simp
  have "parseValue (Suc (length s)) ([] @ s @ []) = Some (v, [])"
    by (rule parseValue_serialize [OF assms(2) _ assms(1,3) _ okRest_Nil f]) simp_all
  then have "parseValue (Suc (length s)) s = Some (v, [])"
    by (simp del: parseValue.simps)
  then show ?thesis by (simp add: JSON_parse_def skipWs_def del: parseValue.simps)
qed

lemma JSON_parse_stringify: "isJSON v \<Longrightarrow> JSON_stringify v = Some s \<Longrightarrow> JSON_parse s = Some v"
  by (rule JSON_parse_serialize [of v "[]"]) (simp_all add: JSON_stringify_def)

lemma JSON_parse_stringify_indent2:
  "isJSON v \<Longrightarrow> JSON_stringify_indent2 v = Some s \<Longrightarrow> JSON_parse s = Some v"
  by (rule JSON_parse_serialize [of v "''  ''"]) (simp_all add: JSON_stringify_indent2_def isJsonWs_def code_def)

lemma update_values: "snd ` set (AList.update k v acc) \<subseteq> insert v (snd ` set acc)"
  by (induction acc) auto

lemma defineAll_aux_distinct:
  "distinct (map fst acc) \<Longrightarrow> distinct (map fst (foldl (\<lambda>acc (k, v). AList.update k v acc) acc ms))"
proof (induction ms arbitrary: acc)
  case Nil
  then show ?case by simp
next
  case (Cons kv ms)
  obtain k v where kv: "kv = (k, v)" by (cases kv)
  have d: "distinct (map fst (AList.update k v acc))"
    using Cons.prems by (rule distinct_update)
  with Cons.IH [OF d] kv show ?case by simp
qed

lemma defineAll_aux_values:
  "snd ` set (foldl (\<lambda>acc (k, v). AList.update k v acc) acc ms) \<subseteq> snd ` set acc \<union> snd ` set ms"
proof (induction ms arbitrary: acc)
  case Nil
  then show ?case by simp
next
  case (Cons kv ms)
  obtain k v where kv: "kv = (k, v)" by (cases kv)
  have "snd ` set (foldl (\<lambda>acc (k, v). AList.update k v acc) (AList.update k v acc) ms)
          \<subseteq> snd ` set (AList.update k v acc) \<union> snd ` set ms"
    by (rule Cons.IH)
  also have "\<dots> \<subseteq> insert v (snd ` set acc) \<union> snd ` set ms"
    using update_values [of k v acc] by blast
  finally show ?case using kv by auto
qed

lemma isJSON_defineAll:
  assumes "list_all (\<lambda>kv. isJSON (snd kv)) ms"
  shows "isJSON (JObj (defineAll ms))"
proof -
  have d: "distinct (map fst (defineAll ms))"
    using defineAll_aux_distinct [of "[]" ms] by (simp add: defineAll_def)
  have sub: "snd ` set (defineAll ms) \<subseteq> snd ` set ms"
    using defineAll_aux_values [of "[]" ms] by (simp add: defineAll_def)
  have "\<forall>kv \<in> set (defineAll ms). isJSON (snd kv)"
  proof
    fix kv assume "kv \<in> set (defineAll ms)"
    then have "snd kv \<in> snd ` set (defineAll ms)" by (rule imageI)
    with sub have "snd kv \<in> snd ` set ms" by blast
    then obtain kv' where "kv' \<in> set ms" "snd kv = snd kv'" by blast
    with assms show "isJSON (snd kv)" by (simp add: list_all_iff)
  qed
  then have "list_all (\<lambda>kv. isJSON (snd kv)) (defineAll ms)"
    by (simp add: list_all_iff)
  with d show ?thesis by simp
qed

lemma parse_isJSON:
  "(parseValue n s = Some (v, r) \<longrightarrow> isJSON v)
   \<and> (parseElements n s = Some (vs, r) \<longrightarrow> list_all isJSON vs)
   \<and> (parseMembers n s = Some (ms, r) \<longrightarrow> list_all (\<lambda>kv. isJSON (snd kv)) ms)"
proof (induction n arbitrary: s v vs ms r)
  case 0
  then show ?case by simp
next
  case (Suc n)
  have ihV: "\<And>s v r. parseValue n s = Some (v, r) \<Longrightarrow> isJSON v" using Suc by blast
  have ihE: "\<And>s vs r. parseElements n s = Some (vs, r) \<Longrightarrow> list_all isJSON vs" using Suc by blast
  have ihM: "\<And>s ms r. parseMembers n s = Some (ms, r) \<Longrightarrow> list_all (\<lambda>kv. isJSON (snd kv)) ms"
    using Suc by blast
  have v: "parseValue (Suc n) s = Some (v, r) \<longrightarrow> isJSON v"
  proof
    assume a: "parseValue (Suc n) s = Some (v, r)"
    then obtain c r0 where sk: "skipWs s = c # r0"
      by (cases "skipWs s") simp_all
    show "isJSON v"
    proof (cases "c = CHR 0x22")
      case True
      with a sk show ?thesis by (auto split: option.splits)
    next
      case nq: False
      show ?thesis
      proof (cases "c = CHR ''[''")
        case True
        with a sk nq obtain d r1 where d: "skipWs r0 = d # r1"
          by (cases "skipWs r0") simp_all
        show ?thesis
        proof (cases "d = CHR '']''")
          case True
          with a sk nq \<open>c = CHR ''[''\<close> d show ?thesis by auto
        next
          case False
          with a sk nq \<open>c = CHR ''[''\<close> d obtain xs where "parseElements n r0 = Some (xs, r)" "v = JArr xs"
            by (auto split: option.splits)
          with ihE show ?thesis by auto
        qed
      next
        case na: False
        show ?thesis
        proof (cases "c = CHR ''{''")
          case True
          with a sk nq na obtain d r1 where d: "skipWs r0 = d # r1"
            by (cases "skipWs r0") simp_all
          show ?thesis
          proof (cases "d = CHR ''}''")
            case True
            with a sk nq na \<open>c = CHR ''{''\<close> d show ?thesis by auto
          next
            case False
            with a sk nq na \<open>c = CHR ''{''\<close> d obtain ms' where "parseMembers n r0 = Some (ms', r)" "v = JObj (defineAll ms')"
              by (auto split: option.splits)
            with ihM isJSON_defineAll show ?thesis by blast
          qed
        next
          case False
          with a sk nq na show ?thesis
            by (auto split: if_splits option.splits)
        qed
      qed
    qed
  qed
  have e: "parseElements (Suc n) s = Some (vs, r) \<longrightarrow> list_all isJSON vs"
  proof
    assume a: "parseElements (Suc n) s = Some (vs, r)"
    then obtain x r0 where x: "parseValue n s = Some (x, r0)"
      by (cases "parseValue n s") auto
    then have jx: "isJSON x" by (rule ihV)
    from a x obtain c r1 where sk: "skipWs r0 = c # r1"
      by (cases "skipWs r0") simp_all
    show "list_all isJSON vs"
    proof (cases "c = CHR '',''")
      case True
      with a x sk obtain xs where "parseElements n r1 = Some (xs, r)" "vs = x # xs"
        by (auto split: option.splits)
      with ihE jx show ?thesis by auto
    next
      case False
      with a x sk jx show ?thesis by (auto split: if_splits)
    qed
  qed
  have m: "parseMembers (Suc n) s = Some (ms, r) \<longrightarrow> list_all (\<lambda>kv. isJSON (snd kv)) ms"
  proof
    assume a: "parseMembers (Suc n) s = Some (ms, r)"
    then obtain q r0 where sk: "skipWs s = q # r0"
      by (cases "skipWs s") simp_all
    with a have q: "q = CHR 0x22" by (auto split: if_splits)
    with a sk obtain k r1 where k: "parseChars r0 = Some (k, r1)"
      by (cases "parseChars r0") auto
    with a sk q obtain c r2 where c: "skipWs r1 = c # r2"
      by (cases "skipWs r1") simp_all
    with a sk q k have col: "c = CHR '':''" by (auto split: if_splits)
    with a sk q k c obtain x r3 where x: "parseValue n r2 = Some (x, r3)"
      by (cases "parseValue n r2") auto
    then have jx: "isJSON x" by (rule ihV)
    from a sk q k c col x obtain e r4 where e: "skipWs r3 = e # r4"
      by (cases "skipWs r3") simp_all
    show "list_all (\<lambda>kv. isJSON (snd kv)) ms"
    proof (cases "e = CHR '',''")
      case True
      with a sk q k c col x e obtain ms' where "parseMembers n r4 = Some (ms', r)" "ms = (k, x) # ms'"
        by (auto split: option.splits)
      with ihM jx show ?thesis by auto
    next
      case False
      with a sk q k c col x e jx show ?thesis by (auto split: if_splits)
    qed
  qed
  from v e m show ?case by blast
qed

lemma JSON_parse_isJSON: "JSON_parse s = Some v \<Longrightarrow> isJSON v"
  using parse_isJSON [of "Suc (length s)" s v]
  by (auto simp: JSON_parse_def simp del: parseValue.simps split: option.splits prod.splits if_splits)

section \<open>Storage, serialisation and object lemmas\<close>

lemma setItem_hasRoom:
  "hasRoom st k v \<Longrightarrow> setItem st k v = Inr (st\<lparr>entries := AList.update k v (entries st)\<rparr>)"
  by (simp add: setItem_def)

lemma setItem_Inr:
  "setItem st k v = Inr st' \<Longrightarrow> st' = st\<lparr>entries := AList.update k v (entries st)\<rparr>"
  by (simp add: setItem_def split: if_splits)

lemma getItem_update_same: "getItem (st\<lparr>entries := AList.update k v (entries st)\<rparr>) k = Some v"
  by (simp add: getItem_def update_conv')

lemma getItem_update_other:
  "k' \<noteq> k \<Longrightarrow> getItem (st\<lparr>entries := AList.update k v (entries st)\<rparr>) k' = getItem st k'"
  by (simp add: getItem_def update_conv')

lemma getItem_removeItem: "getItem (removeItem st k) k = None"
  by (simp add: getItem_def removeItem_def delete_conv')

lemma hasRoom_update:
  "hasRoom (st\<lparr>entries := AList.update k v' (entries st)\<rparr>) k v = hasRoom st k v"
  by (simp add: hasRoom_def)

lemma serializeJSON_nonempty: "serializeJSON gap ind v = Some s \<Longrightarrow> s \<noteq> []"
  using serialize_start by blast

lemma isJSON_update:
  assumes "isJSON (JObj kvs)" "isJSON v"
  shows "isJSON (JObj (AList.update k v kvs))"
proof -
  have d: "distinct (map fst (AList.update k v kvs))"
    using assms(1) by (simp add: distinct_update)
  have "\<forall>kv \<in> set (AList.update k v kvs). isJSON (snd kv)"
  proof
    fix kv assume "kv \<in> set (AList.update k v kvs)"
    then have "snd kv \<in> snd ` set (AList.update k v kvs)" by (rule imageI)
    with update_values [of k v kvs] have "snd kv = v \<or> snd kv \<in> snd ` set kvs" by blast
    with assms show "isJSON (snd kv)" by (auto simp: list_all_iff)
  qed
  with d show ?thesis by (simp add: list_all_iff)
qed

lemma stringify_parse:
  assumes "isJSON v"
  shows "\<exists>s. JSON_stringify v = Some s \<and> s \<noteq> [] \<and> JSON_parse s = Some v"
proof -
  obtain s where s: "JSON_stringify v = Some s"
    unfolding JSON_stringify_def using isJSON_serialize_Some [OF assms] by blast
  moreover have "s \<noteq> []" using s serializeJSON_nonempty by (auto simp: JSON_stringify_def)
  moreover have "JSON_parse s = Some v" by (rule JSON_parse_stringify [OF assms s])
  ultimately show ?thesis by blast
qed

lemma map_of_foldl_update:
  "distinct (map fst ms) \<Longrightarrow>
   map_of (foldl (\<lambda>acc (k, v). AList.update k v acc) acc ms) = map_of acc ++ map_of ms"
proof (induction ms arbitrary: acc)
  case Nil
  then show ?case by simp
next
  case (Cons kv ms)
  let ?f = "\<lambda>acc (k, v). AList.update k v acc"
  obtain k v where kv: "kv = (k, v)" by (cases kv)
  from Cons.prems kv have nk: "k \<notin> fst ` set ms" and d: "distinct (map fst ms)" by auto
  have none: "map_of ms k = None" using nk by (simp add: map_of_eq_None_iff)
  have "map_of (foldl ?f acc (kv # ms)) = map_of (foldl ?f (AList.update k v acc) ms)"
    using kv by simp
  also have "\<dots> = map_of (AList.update k v acc) ++ map_of ms"
    by (rule Cons.IH [OF d])
  also have "\<dots> = map_of acc ++ map_of (kv # ms)"
  proof
    fix x
    show "(map_of (AList.update k v acc) ++ map_of ms) x = (map_of acc ++ map_of (kv # ms)) x"
      using none kv by (auto simp: map_add_def update_conv' split: option.splits)
  qed
  finally show ?case .
qed

lemma map_of_defineAll3:
  assumes "distinct (map fst A)" "distinct (map fst B)" "distinct (map fst C)"
  shows "map_of (defineAll (A @ B @ C)) = map_of A ++ map_of B ++ map_of C"
proof -
  let ?f = "\<lambda>acc (k, v). AList.update k v acc"
  have "defineAll (A @ B @ C) = foldl ?f (foldl ?f (foldl ?f [] A) B) C"
    by (simp add: defineAll_def)
  then show ?thesis
    using assms by (simp add: map_of_foldl_update)
qed

lemma isJSON_spreadProps: "isJSON p \<Longrightarrow> list_all (\<lambda>kv. isJSON (snd kv)) (spreadProps p)"
  by (cases p) (auto simp: list_all_iff)

lemma isJSON_objectLiteral:
  "list_all (\<lambda>kv. isJSON (snd kv)) props \<Longrightarrow> isJSON (objectLiteral props)"
  unfolding objectLiteral_def by (rule isJSON_defineAll)

lemma propOf_update_other: "k \<noteq> k' \<Longrightarrow> propOf (AList.update k' v kvs) k = propOf kvs k"
  by (simp add: propOf_def update_conv')

lemma map_of_case_propOf:
  "(case map_of kvs k of Some v \<Rightarrow> v | None \<Rightarrow> JUndefined) = propOf kvs k"
  by (simp add: propOf_def split: option.splits)

section \<open>BlogAuth: sessions and login\<close>

lemma isJSON_sessionRecord: "isJSON (sessionRecord r n1 n2)"
  by (simp add: sessionRecord_def objectLiteral_def defineAll_def)

lemma sessionRecord_props: "sessionRecord r n1 n2 = JObj
       [(''authenticated'', JBool True),
        (''timestamp'', JNum n1),
        (''expiresAt'', JNum (n2 + (if r then 30 * 24 * 60 * 60 * 1000 else SESSION_DURATION)))]"
  by (simp add: sessionRecord_def objectLiteral_def defineAll_def)

lemma sessionText_parse:
  "sessionText r n1 n2 \<noteq> [] \<and> JSON_parse (sessionText r n1 n2) = Some (sessionRecord r n1 n2)"
proof -
  obtain s where s: "JSON_stringify (sessionRecord r n1 n2) = Some s"
    unfolding JSON_stringify_def using isJSON_serialize_Some [OF isJSON_sessionRecord] by blast
  then have "JSON_parse s = Some (sessionRecord r n1 n2)"
    using JSON_parse_stringify [OF isJSON_sessionRecord] by simp
  moreover have "s \<noteq> []" using s serializeJSON_nonempty by (auto simp: JSON_stringify_def)
  ultimately show ?thesis using s by (simp add: sessionText_def storedText_def)
qed

lemma createSession_tab:
  assumes "hasRoom (sessionStorage b) SESSION_KEY (sessionText False n1 n2)"
  shows "createSession False n1 n2 b =
           Inr (b\<lparr>sessionStorage := (sessionStorage b)\<lparr>entries :=
                  AList.update SESSION_KEY (sessionText False n1 n2) (entries (sessionStorage b))\<rparr>\<rparr>)"
  using assms by (simp add: createSession_def setItem_hasRoom)

lemma keys_differ: "PASSWORD_KEY \<noteq> SESSION_KEY"
  by (simp add: PASSWORD_KEY_def SESSION_KEY_def)

lemma hashPassword_nonempty: "digest (utf8 pw) \<noteq> [] \<Longrightarrow> hashPassword digest pw \<noteq> []"
  by (cases "digest (utf8 pw)") (simp_all add: hashPassword_def hexByte_def)

text \<open>
  Claim C3, as amended. On a store with no credential set: for every password of at least
  6 characters, with a digest that returns at least one byte (SHA-256 returns 32) and
  storage areas that have room for the hash and for the two session records,
  \<^verbatim>\<open>login(pw)\<close> returns \<open>success = true\<close> and \<open>firstTime = true\<close>, leaves the credential
  set and the session record in the tab scope, and a subsequent \<^verbatim>\<open>login(pw)\<close> returns
  \<open>success = true\<close> and \<open>firstTime = false\<close>. For every password shorter than 6
  characters, \<^verbatim>\<open>login(pw)\<close> returns \<open>success = false\<close> with no \<open>firstTime\<close> and leaves the
  store as it was.
\<close>

theorem login_first_time_then_returning:
  assumes "\<not> isPasswordSet b"
  shows "(6 \<le> length pw
          \<and> digest (utf8 pw) \<noteq> []
          \<and> hasRoom (localStorage b) PASSWORD_KEY (hashPassword digest pw)
          \<and> hasRoom (sessionStorage b) SESSION_KEY (sessionText False t1 t2)
          \<and> hasRoom (sessionStorage b) SESSION_KEY (sessionText False t3 t4)
          \<longrightarrow> (\<exists>m1 b1 m2 b2.
                 login digest pw False t1 t2 b
                   = (\<lparr>success = True, message = m1, firstTime = Some True\<rparr>, b1)
               \<and> isPasswordSet b1 \<and> sessionData b1 = Some (sessionText False t1 t2)
               \<and> login digest pw False t3 t4 b1
                   = (\<lparr>success = True, message = m2, firstTime = Some False\<rparr>, b2)))
       \<and> (length pw < 6
          \<longrightarrow> login digest pw rememberMe t1 t2 b
                = (\<lparr>success = False, message = ''Failed to set password. Please try again.'',
                    firstTime = None\<rparr>, b))"
proof -
  have long: "\<exists>m1 b1 m2 b2.
           login digest pw False t1 t2 b = (\<lparr>success = True, message = m1, firstTime = Some True\<rparr>, b1)
         \<and> isPasswordSet b1 \<and> sessionData b1 = Some (sessionText False t1 t2)
         \<and> login digest pw False t3 t4 b1 = (\<lparr>success = True, message = m2, firstTime = Some False\<rparr>, b2)"
    if len: "6 \<le> length pw"
      and dig: "digest (utf8 pw) \<noteq> []"
      and roomp: "hasRoom (localStorage b) PASSWORD_KEY (hashPassword digest pw)"
      and room1: "hasRoom (sessionStorage b) SESSION_KEY (sessionText False t1 t2)"
      and room3: "hasRoom (sessionStorage b) SESSION_KEY (sessionText False t3 t4)"
  proof -
    let ?h = "hashPassword digest pw"
    let ?bp = "b\<lparr>localStorage := (localStorage b)\<lparr>entries := AList.update PASSWORD_KEY ?h (entries (localStorage b))\<rparr>\<rparr>"
    let ?b1 = "?bp\<lparr>sessionStorage := (sessionStorage b)\<lparr>entries :=
                    AList.update SESSION_KEY (sessionText False t1 t2) (entries (sessionStorage b))\<rparr>\<rparr>"
    let ?b2 = "?b1\<lparr>sessionStorage := (sessionStorage ?b1)\<lparr>entries :=
                    AList.update SESSION_KEY (sessionText False t3 t4) (entries (sessionStorage ?b1))\<rparr>\<rparr>"
    have ne: "pw \<noteq> []" using len by auto
    have sp: "setPassword digest pw b = (True, ?bp)"
      using len roomp ne by (simp add: setPassword_def setItem_hasRoom)
    have cs1: "createSession False t1 t2 ?bp = Inr ?b1"
      using createSession_tab [of ?bp t1 t2] room1 by simp
    have l1: "login digest pw False t1 t2 b =
            (\<lparr>success = True, message = ''Password set successfully! Welcome to your blog admin.'',
              firstTime = Some True\<rparr>, ?b1)"
      using assms sp cs1 by (simp add: login_def)
    have set1: "isPasswordSet ?b1"
      by (simp add: isPasswordSet_def getItem_update_same)
    have ver: "verifyPassword digest pw ?b1"
      using hashPassword_nonempty [of digest pw] dig
      by (simp add: verifyPassword_def getItem_update_same)
    have room2: "hasRoom (sessionStorage ?b1) SESSION_KEY (sessionText False t3 t4)"
      using room3 by (simp add: hasRoom_update)
    have cs2: "createSession False t3 t4 ?b1 = Inr ?b2"
      using createSession_tab [OF room2] by simp
    have l2: "login digest pw False t3 t4 ?b1 =
            (\<lparr>success = True, message = ''Login successful!'', firstTime = Some False\<rparr>, ?b2)"
      using set1 ver cs2 by (simp add: login_def)
    have sd: "sessionData ?b1 = Some (sessionText False t1 t2)"
      using sessionText_parse [of False t1 t2]
      by (simp add: sessionData_def getItem_update_same present_def)
    from l1 set1 sd l2 show ?thesis by blast
  qed
  have short: "login digest pw rememberMe t1 t2 b
                = (\<lparr>success = False, message = ''Failed to set password. Please try again.'',
                    firstTime = None\<rparr>, b)"
    if "length pw < 6"
    using that assms by (simp add: login_def setPassword_def)
  from long short show ?thesis by blast
qed

text \<open>
  The theorem on the empty browser: at the password \<open>secret\<close> for the first part and at
  the password \<open>abc\<close> for the second.
\<close>

theorem login_first_time_then_returning_witness:
  "(\<exists>m1 b1 m2 b2.
     login (\<lambda>bytes. replicate 32 0) ''secret'' False 1000 1000 emptyBrowser
       = (\<lparr>success = True, message = m1, firstTime = Some True\<rparr>, b1)
   \<and> isPasswordSet b1 \<and> sessionData b1 = Some (sessionText False 1000 1000)
   \<and> login (\<lambda>bytes. replicate 32 0) ''secret'' False 2000 2000 b1
       = (\<lparr>success = True, message = m2, firstTime = Some False\<rparr>, b2))
   \<and> login (\<lambda>bytes. replicate 32 0) ''abc'' True 1000 1000 emptyBrowser
       = (\<lparr>success = False, message = ''Failed to set password. Please try again.'',
           firstTime = None\<rparr>, emptyBrowser)"
proof -
  have e: "\<not> isPasswordSet emptyBrowser" by code_simp
  have l: "6 \<le> length ''secret''" by simp
  have d: "(\<lambda>bytes. replicate 32 0) (utf8 ''secret'') \<noteq> ([] :: nat list)" by simp
  have rp: "hasRoom (localStorage emptyBrowser) PASSWORD_KEY
              (hashPassword (\<lambda>bytes. replicate 32 0) ''secret'')"
    by code_simp
  have r1: "hasRoom (sessionStorage emptyBrowser) SESSION_KEY (sessionText False 1000 1000)"
    by code_simp
  have r2: "hasRoom (sessionStorage emptyBrowser) SESSION_KEY (sessionText False 2000 2000)"
    by code_simp
  have s: "length ''abc'' < 6" by simp
  from login_first_time_then_returning
         [OF e, of "''secret''" "\<lambda>bytes. replicate 32 0" 1000 1000 2000 2000 False]
       l d rp r1 r2
  have first: "\<exists>m1 b1 m2 b2.
     login (\<lambda>bytes. replicate 32 0) ''secret'' False 1000 1000 emptyBrowser
       = (\<lparr>success = True, message = m1, firstTime = Some True\<rparr>, b1)
   \<and> isPasswordSet b1 \<and> sessionData b1 = Some (sessionText False 1000 1000)
   \<and> login (\<lambda>bytes. replicate 32 0) ''secret'' False 2000 2000 b1
       = (\<lparr>success = True, message = m2, firstTime = Some False\<rparr>, b2)"
    by blast
  from login_first_time_then_returning
         [OF e, of "''abc''" "\<lambda>bytes. replicate 32 0" 1000 1000 2000 2000 True] s
  have second: "login (\<lambda>bytes. replicate 32 0) ''abc'' True 1000 1000 emptyBrowser
       = (\<lparr>success = False, message = ''Failed to set password. Please try again.'',
           firstTime = None\<rparr>, emptyBrowser)"
    by blast
  from first second show ?thesis by blast
qed

text \<open>
  Claim C3 as stated fails for a short password: on the empty browser, which has no
  credential, \<^verbatim>\<open>login('abc')\<close> reports failure and no \<open>firstTime\<close>, and the browser stays
  empty.
\<close>

theorem login_short_password_counterexample:
  "\<not> isPasswordSet emptyBrowser
   \<and> login (\<lambda>bytes. replicate 32 0) ''abc'' False 1000 1000 emptyBrowser
       = (\<lparr>success = False, message = ''Failed to set password. Please try again.'',
           firstTime = None\<rparr>, emptyBrowser)"
  by code_simp

lemma logout_clears:
  "getItem (sessionStorage (logout b)) SESSION_KEY = None
   \<and> getItem (localStorage (logout b)) SESSION_KEY = None"
  by (simp add: logout_def getItem_removeItem)

lemma createSession_Inr_tab:
  assumes "createSession False n1 n2 b = Inr b1"
  shows "sessionData b1 = Some (sessionText False n1 n2)"
proof -
  from assms obtain ss where ss: "setItem (sessionStorage b) SESSION_KEY (sessionText False n1 n2) = Inr ss"
    and b1: "b1 = b\<lparr>sessionStorage := ss\<rparr>"
    by (auto simp: createSession_def split: sum.splits)
  from setItem_Inr [OF ss] b1 show ?thesis
    using sessionText_parse [of False n1 n2]
    by (simp add: sessionData_def getItem_update_same present_def)
qed

text \<open>
  Claim C5, as amended. For the session record that \<^verbatim>\<open>isAuthenticated\<close> looks up (the
  tab-scoped text unless it is absent or empty, otherwise the durable one): when it is
  called strictly after the record's numeric \<open>expiresAt\<close>, it returns false and the
  session key is cleared from both storage scopes. In particular this is so 24 hours and
  one second after \<^verbatim>\<open>createSession(false)\<close>. When the tab scope holds a record that has
  not expired and whose \<open>authenticated\<close> is true, \<^verbatim>\<open>isAuthenticated\<close> returns true and
  changes nothing, whatever the durable scope holds: a durable record behind it, expired
  or not, is not looked at.
\<close>

theorem isAuthenticated_expired:
  "(sessionData b = Some stored \<and> stored \<noteq> [] \<and> JSON_parse stored = Some session
      \<and> getProp session ''expiresAt'' = Inr (JNum e) \<and> e < now
    \<longrightarrow> isAuthenticated now b = Some (False, logout b)
        \<and> getItem (sessionStorage (logout b)) SESSION_KEY = None
        \<and> getItem (localStorage (logout b)) SESSION_KEY = None)
   \<and> (createSession False now1 now2 b0 = Inr b1
    \<longrightarrow> isAuthenticated (now2 + 24 * 60 * 60 * 1000 + 1000) b1 = Some (False, logout b1))
   \<and> (getItem (sessionStorage bs) SESSION_KEY = Some tab \<and> tab \<noteq> []
      \<and> JSON_parse tab = Some valid
      \<and> getProp valid ''expiresAt'' = Inr (JNum ev) \<and> asked \<le> ev
      \<and> getProp valid ''authenticated'' = Inr (JBool True)
    \<longrightarrow> isAuthenticated asked bs = Some (True, bs))"
proof -
  have first: "isAuthenticated now b = Some (False, logout b)
        \<and> getItem (sessionStorage (logout b)) SESSION_KEY = None
        \<and> getItem (localStorage (logout b)) SESSION_KEY = None"
    if "sessionData b = Some stored \<and> stored \<noteq> [] \<and> JSON_parse stored = Some session
          \<and> getProp session ''expiresAt'' = Inr (JNum e) \<and> e < now"
    using that by (simp add: isAuthenticated_def present_def logout_clears)
  have second: "isAuthenticated (now2 + 24 * 60 * 60 * 1000 + 1000) b1 = Some (False, logout b1)"
    if c: "createSession False now1 now2 b0 = Inr b1"
  proof -
    have sd: "sessionData b1 = Some (sessionText False now1 now2)"
      by (rule createSession_Inr_tab [OF c])
    have ex: "getProp (sessionRecord False now1 now2) ''expiresAt''
                = Inr (JNum (now2 + SESSION_DURATION))"
      by (simp add: sessionRecord_props propOf_def)
    show ?thesis
      using sd sessionText_parse [of False now1 now2] ex
      by (simp add: isAuthenticated_def present_def SESSION_DURATION_def)
  qed
  have third: "isAuthenticated asked bs = Some (True, bs)"
    if "getItem (sessionStorage bs) SESSION_KEY = Some tab \<and> tab \<noteq> []
      \<and> JSON_parse tab = Some valid
      \<and> getProp valid ''expiresAt'' = Inr (JNum ev) \<and> asked \<le> ev
      \<and> getProp valid ''authenticated'' = Inr (JBool True)"
    using that by (simp add: isAuthenticated_def sessionData_def present_def)
  from first second third show ?thesis by blast
qed

text \<open>
  The theorem at the tab session created at time 0 in the empty browser, asked 24 hours
  and one second later: the hypotheses of the first two parts hold there, and the state
  left is the empty browser again. The third part at \<open>shadowedSession\<close>, asked after the
  expiry of its durable record.
\<close>

theorem isAuthenticated_expired_witness:
  "createSession False 0 0 emptyBrowser = Inr tabSession
   \<and> sessionData tabSession = Some (sessionText False 0 0)
   \<and> JSON_parse (sessionText False 0 0) = Some (sessionRecord False 0 0)
   \<and> getProp (sessionRecord False 0 0) ''expiresAt'' = Inr (JNum 86400000)
   \<and> isAuthenticated 86401000 tabSession = Some (False, emptyBrowser)
   \<and> getItem (sessionStorage emptyBrowser) SESSION_KEY = None
   \<and> getItem (localStorage emptyBrowser) SESSION_KEY = None
   \<and> getItem (sessionStorage shadowedSession) SESSION_KEY
       = Some (sessionText False 2592000001 2592000001)
   \<and> getProp (sessionRecord False 2592000001 2592000001) ''expiresAt'' = Inr (JNum 2678400001)
   \<and> getItem (localStorage shadowedSession) SESSION_KEY = Some (sessionText True 0 0)
   \<and> getProp (sessionRecord True 0 0) ''expiresAt'' = Inr (JNum 2592000000)
   \<and> isAuthenticated 2592000002 shadowedSession = Some (True, shadowedSession)"
proof -
  have c: "createSession False 0 0 emptyBrowser = Inr tabSession" by code_simp
  have sd: "sessionData tabSession = Some (sessionText False 0 0)" by code_simp
  have ne: "sessionText False 0 0 \<noteq> []"
    and p: "JSON_parse (sessionText False 0 0) = Some (sessionRecord False 0 0)"
    using sessionText_parse [of False 0 0] by simp_all
  have ex: "getProp (sessionRecord False 0 0) ''expiresAt'' = Inr (JNum 86400000)"
    by (simp add: sessionRecord_props propOf_def SESSION_DURATION_def)
  have l: "logout tabSession = emptyBrowser" by code_simp
  have gt: "getItem (sessionStorage shadowedSession) SESSION_KEY
              = Some (sessionText False 2592000001 2592000001)"
    by (simp add: shadowedSession_def getItem_def)
  have net: "sessionText False 2592000001 2592000001 \<noteq> []"
    and pt: "JSON_parse (sessionText False 2592000001 2592000001)
               = Some (sessionRecord False 2592000001 2592000001)"
    using sessionText_parse [of False 2592000001 2592000001] by simp_all
  have ext: "getProp (sessionRecord False 2592000001 2592000001) ''expiresAt''
               = Inr (JNum 2678400001)"
    by (simp add: sessionRecord_props propOf_def SESSION_DURATION_def)
  have aut: "getProp (sessionRecord False 2592000001 2592000001) ''authenticated''
               = Inr (JBool True)"
    by (simp add: sessionRecord_props propOf_def)
  have gd: "getItem (localStorage shadowedSession) SESSION_KEY = Some (sessionText True 0 0)"
    by (simp add: shadowedSession_def getItem_def)
  have pd: "JSON_parse (sessionText True 0 0) = Some (sessionRecord True 0 0)"
    using sessionText_parse [of True 0 0] by simp
  have exd: "getProp (sessionRecord True 0 0) ''expiresAt'' = Inr (JNum 2592000000)"
    by (simp add: sessionRecord_props propOf_def)
  note t = isAuthenticated_expired
      [where b = tabSession and stored = "sessionText False 0 0"
         and session = "sessionRecord False 0 0" and e = 86400000 and now = 86401000
         and ?now1.0 = 0 and ?now2.0 = 0 and ?b0.0 = emptyBrowser and ?b1.0 = tabSession
         and bs = shadowedSession and tab = "sessionText False 2592000001 2592000001"
         and valid = "sessionRecord False 2592000001 2592000001" and ev = 2678400001
         and asked = 2592000002]
  from t c sd ne p ex l gt net pt ext aut gd pd exd
  show ?thesis by simp
qed

text \<open>
  Claim C5 as stated fails for a stored record that the lookup does not reach: in
  \<open>shadowedSession\<close> the durable record, created at time 0 with "remember me", expired at
  2592000000, and a tab-scoped record created afterwards is still valid. Called after the
  durable record's expiry, \<^verbatim>\<open>isAuthenticated\<close> returns true and clears nothing.
\<close>

theorem isAuthenticated_shadowed_counterexample:
  "getItem (localStorage shadowedSession) SESSION_KEY = Some (sessionText True 0 0)
   \<and> JSON_parse (sessionText True 0 0) = Some (sessionRecord True 0 0)
   \<and> getProp (sessionRecord True 0 0) ''expiresAt'' = Inr (JNum 2592000000)
   \<and> isAuthenticated 2592000002 shadowedSession = Some (True, shadowedSession)"
  by code_simp

lemma getSession_object:
  assumes "getSession b = JObj kvs"
  shows "present (sessionData b) \<and> JSON_parse (the (sessionData b)) = Some (JObj kvs)"
  using assms by (auto simp: getSession_def split: if_splits option.splits)

lemma extendSession_object:
  assumes g: "getSession b = JObj kvs" and e: "extendSession now b = Inr b'"
  shows "getSession b' = JObj (AList.update ''expiresAt'' (JNum (now + SESSION_DURATION)) kvs)
     \<and> (present (getItem (sessionStorage b) SESSION_KEY) \<longrightarrow> localStorage b' = localStorage b)
     \<and> (\<not> present (getItem (sessionStorage b) SESSION_KEY) \<longrightarrow> sessionStorage b' = sessionStorage b)"
proof -
  let ?new = "JObj (AList.update ''expiresAt'' (JNum (now + SESSION_DURATION)) kvs)"
  from getSession_object [OF g] have "isJSON (JObj kvs)"
    using JSON_parse_isJSON by blast
  then have "isJSON ?new" by (rule isJSON_update) simp
  then obtain s where s: "JSON_stringify ?new = Some s" "s \<noteq> []" "JSON_parse s = Some ?new"
    using stringify_parse by blast
  show ?thesis
  proof (cases "present (getItem (sessionStorage b) SESSION_KEY)")
    case True
    with e g s(1) obtain ss where ss: "setItem (sessionStorage b) SESSION_KEY s = Inr ss"
      and b': "b' = b\<lparr>sessionStorage := ss\<rparr>"
      by (auto simp: extendSession_def storedText_def Let_def split: sum.splits)
    from setItem_Inr [OF ss] b' s(2,3) True show ?thesis
      by (simp add: getSession_def sessionData_def getItem_update_same present_def)
  next
    case False
    with e g s(1) obtain ls where ls: "setItem (localStorage b) SESSION_KEY s = Inr ls"
      and b': "b' = b\<lparr>localStorage := ls\<rparr>"
      by (auto simp: extendSession_def storedText_def Let_def split: sum.splits)
    from setItem_Inr [OF ls] b' s(2,3) False show ?thesis
      by (simp add: getSession_def sessionData_def getItem_update_same present_def)
  qed
qed

lemma createSession_Inr_durable:
  assumes "createSession True n1 n2 b0 = Inr b" "\<not> present (getItem (sessionStorage b0) SESSION_KEY)"
  shows "getSession b = sessionRecord True n1 n2 \<and> \<not> present (getItem (sessionStorage b) SESSION_KEY)"
proof -
  from assms(1) obtain ls where ls: "setItem (localStorage b0) SESSION_KEY (sessionText True n1 n2) = Inr ls"
    and b: "b = b0\<lparr>localStorage := ls\<rparr>"
    by (auto simp: createSession_def split: sum.splits)
  from setItem_Inr [OF ls] b assms(2) show ?thesis
    using sessionText_parse [of True n1 n2]
    by (simp add: getSession_def sessionData_def getItem_update_same present_def)
qed

text \<open>
  Claim C9, as amended. Whenever the session lookup (tab scope first, then durable) finds
  a session record and the storage accepts the write, \<^verbatim>\<open>extendSession()\<close> sets that
  record's \<open>expiresAt\<close> to exactly now + 24 hours and writes it back to the scope that
  holds it, leaving the other scope untouched, whatever duration the session was created
  with. Consequently, on a durable "remember me" session that is the one found (no
  tab-scoped session is stored) and that has more than 24 hours left,
  \<^verbatim>\<open>extendSession()\<close> replaces \<open>expiresAt = t2 + 30 days\<close> by the strictly smaller
  \<open>now + 24 hours\<close>.
\<close>

theorem extendSession_resets_expiry:
  "(getSession b = JObj kvs \<and> extendSession now b = Inr b'
    \<longrightarrow> getProp (getSession b') ''expiresAt'' = Inr (JNum (now + 24 * 60 * 60 * 1000))
        \<and> getSession b' = JObj (AList.update ''expiresAt'' (JNum (now + 24 * 60 * 60 * 1000)) kvs)
        \<and> (present (getItem (sessionStorage b) SESSION_KEY) \<longrightarrow> localStorage b' = localStorage b)
        \<and> (\<not> present (getItem (sessionStorage b) SESSION_KEY) \<longrightarrow> sessionStorage b' = sessionStorage b))
   \<and> (createSession True t1 t2 b0 = Inr b \<and> \<not> present (getItem (sessionStorage b0) SESSION_KEY)
        \<and> now + 24 * 60 * 60 * 1000 < t2 + 30 * 24 * 60 * 60 * 1000
        \<and> extendSession now b = Inr b'
    \<longrightarrow> getProp (getSession b) ''expiresAt'' = Inr (JNum (t2 + 30 * 24 * 60 * 60 * 1000))
        \<and> getProp (getSession b') ''expiresAt'' = Inr (JNum (now + 24 * 60 * 60 * 1000))
        \<and> sessionStorage b' = sessionStorage b)"
proof -
  have first: "getProp (getSession b') ''expiresAt'' = Inr (JNum (now + 24 * 60 * 60 * 1000))
        \<and> getSession b' = JObj (AList.update ''expiresAt'' (JNum (now + 24 * 60 * 60 * 1000)) kvs)
        \<and> (present (getItem (sessionStorage b) SESSION_KEY) \<longrightarrow> localStorage b' = localStorage b)
        \<and> (\<not> present (getItem (sessionStorage b) SESSION_KEY) \<longrightarrow> sessionStorage b' = sessionStorage b)"
    if "getSession b = JObj kvs \<and> extendSession now b = Inr b'" for kvs
    using extendSession_object [of b kvs now b'] that
    by (simp add: SESSION_DURATION_def propOf_def update_conv')
  have second: "getProp (getSession b) ''expiresAt'' = Inr (JNum (t2 + 30 * 24 * 60 * 60 * 1000))
        \<and> getProp (getSession b') ''expiresAt'' = Inr (JNum (now + 24 * 60 * 60 * 1000))
        \<and> sessionStorage b' = sessionStorage b"
    if h: "createSession True t1 t2 b0 = Inr b \<and> \<not> present (getItem (sessionStorage b0) SESSION_KEY)
        \<and> now + 24 * 60 * 60 * 1000 < t2 + 30 * 24 * 60 * 60 * 1000
        \<and> extendSession now b = Inr b'"
  proof -
    let ?kvs = "[(''authenticated'', JBool True), (''timestamp'', JNum t1),
                 (''expiresAt'', JNum (t2 + 30 * 24 * 60 * 60 * 1000))]"
    from h createSession_Inr_durable [of t1 t2 b0 b]
    have g: "getSession b = JObj ?kvs" and np: "\<not> present (getItem (sessionStorage b) SESSION_KEY)"
      by (simp_all add: sessionRecord_props)
    from first [of ?kvs] g h np show ?thesis
      by (simp add: propOf_def)
  qed
  from first [of kvs] second show ?thesis by blast
qed

text \<open>
  The theorem at the durable session created at time 0 and extended at time 1000: its
  expiry drops from 2592000000 to 86401000.
\<close>

theorem extendSession_resets_expiry_witness:
  "createSession True 0 0 emptyBrowser = Inr durableSession
   \<and> getProp (getSession durableSession) ''expiresAt'' = Inr (JNum 2592000000)
   \<and> (\<exists>b'. extendSession 1000 durableSession = Inr b'
          \<and> getProp (getSession b') ''expiresAt'' = Inr (JNum 86401000)
          \<and> sessionStorage b' = sessionStorage durableSession)"
proof -
  have c: "createSession True 0 0 emptyBrowser = Inr durableSession" by code_simp
  have np: "\<not> present (getItem (sessionStorage emptyBrowser) SESSION_KEY)" by code_simp
  obtain b' where e: "extendSession 1000 durableSession = Inr b'"
    by (cases "extendSession 1000 durableSession") (code_simp, blast)
  have g: "getSession durableSession = sessionRecord True 0 0" by code_simp
  have before: "getProp (getSession durableSession) ''expiresAt'' = Inr (JNum 2592000000)"
    by code_simp
  from extendSession_resets_expiry [of durableSession "spreadProps (sessionRecord True 0 0)" 1000 b' 0 0 emptyBrowser]
    c np e g
  have "getProp (getSession b') ''expiresAt'' = Inr (JNum 86401000)
          \<and> sessionStorage b' = sessionStorage durableSession"
    by (simp add: sessionRecord_props propOf_def)
  with c before e show ?thesis by blast
qed

text \<open>
  Claim C9 as stated fails for a durable session that a tab-scoped session shadows: in
  \<open>bothSessions\<close> the durable record has 30 days left, and \<^verbatim>\<open>extendSession()\<close> at time
  1000 rewrites the tab-scoped record only; the durable record keeps its \<open>expiresAt\<close> of
  2592000000.
\<close>

theorem extendSession_shadowed_counterexample:
  "createSession False 0 0 durableSession = Inr bothSessions
   \<and> getProp (sessionRecord True 0 0) ''expiresAt'' = Inr (JNum 2592000000)
   \<and> (case extendSession 1000 bothSessions of
         Inl e \<Rightarrow> False
       | Inr b' \<Rightarrow>
           getItem (localStorage b') SESSION_KEY = Some (sessionText True 0 0)
           \<and> getItem (sessionStorage b') SESSION_KEY = Some (sessionText False 0 1000))"
  by code_simp

section \<open>BlogStorage: import and export\<close>

lemma getAllPosts_isJSON: "isJSON (getAllPosts b)"
  by (auto simp: getAllPosts_def JSON_parse_isJSON split: option.splits)

lemma savePosts_Inr:
  assumes "savePosts b v = Inr b'" "isJSON v"
  shows "getAllPosts b' = v \<and> sessionStorage b' = sessionStorage b
         \<and> getItem (localStorage b') STORAGE_KEY = JSON_stringify v"
proof -
  obtain s where s: "JSON_stringify v = Some s" "s \<noteq> []" "JSON_parse s = Some v"
    using stringify_parse [OF assms(2)] by blast
  from assms(1) s(1) obtain ls where ls: "setItem (localStorage b) STORAGE_KEY s = Inr ls"
    and b': "b' = b\<lparr>localStorage := ls\<rparr>"
    by (auto simp: savePosts_def storedText_def split: sum.splits if_splits)
  from setItem_Inr [OF ls] b' s show ?thesis
    by (simp add: getAllPosts_def getItem_update_same)
qed

lemma savePosts_hasRoom:
  assumes "hasRoom (localStorage b) STORAGE_KEY (storedText (JSON_stringify v))"
  shows "\<exists>b'. savePosts b v = Inr b'"
  using assms by (simp add: savePosts_def setItem_hasRoom)

lemma JSON_stringify_empty_array: "JSON_stringify (JArr []) = Some ''[]''"
  by (simp add: JSON_stringify_def wrapItems_def)

lemma getProp_length_falsy:
  assumes "\<not> truthy p"
  shows "getProp (orElse p (JArr [])) ''length'' = Inr (JNum 0)"
  using assms by (simp add: orElse_def)

text \<open>
  Claim C10, as amended. For every input string that parses to a JSON value other than
  \<open>null\<close> whose \<open>posts\<close> property is absent or falsy (such as \<open>{}\<close>), and a storage that
  has room for the text \<open>[]\<close>, \<^verbatim>\<open>importFromJSON\<close> does not throw: it replaces the stored
  collection by the empty list and returns 0.
\<close>

theorem importFromJSON_without_posts:
  "JSON_parse s = Some data \<and> getProp data ''posts'' = Inr p \<and> \<not> truthy p
     \<and> hasRoom (localStorage b) STORAGE_KEY ''[]''
   \<longrightarrow> (\<exists>b'. importFromJSON b s = Inr (JNum 0, b')
          \<and> getItem (localStorage b') STORAGE_KEY = Some ''[]''
          \<and> getAllPosts b' = JArr [])"
proof
  assume a: "JSON_parse s = Some data \<and> getProp data ''posts'' = Inr p \<and> \<not> truthy p
     \<and> hasRoom (localStorage b) STORAGE_KEY ''[]''"
  then have "hasRoom (localStorage b) STORAGE_KEY (storedText (JSON_stringify (JArr [])))"
    by (simp add: JSON_stringify_empty_array storedText_def)
  then obtain b' where b': "savePosts b (JArr []) = Inr b'"
    using savePosts_hasRoom by blast
  have st: "getAllPosts b' = JArr [] \<and> getItem (localStorage b') STORAGE_KEY = Some ''[]''"
    using savePosts_Inr [OF b'] by (simp add: JSON_stringify_empty_array)
  have "importFromJSON b s = Inr (JNum 0, b')"
    using a b' by (simp add: importFromJSON_def importBody_def orElse_def)
  with st show "\<exists>b'. importFromJSON b s = Inr (JNum 0, b')
          \<and> getItem (localStorage b') STORAGE_KEY = Some ''[]''
          \<and> getAllPosts b' = JArr []" by blast
qed

text \<open>The theorem at the input \<open>{}\<close> on the empty browser.\<close>

theorem importFromJSON_without_posts_witness:
  "JSON_parse ''{}'' = Some (JObj [])
   \<and> (\<exists>b'. importFromJSON emptyBrowser ''{}'' = Inr (JNum 0, b')
          \<and> getItem (localStorage b') STORAGE_KEY = Some ''[]''
          \<and> getAllPosts b' = JArr [])"
proof -
  have p: "JSON_parse ''{}'' = Some (JObj [])" by code_simp
  have g: "getProp (JObj []) ''posts'' = Inr JUndefined" by (simp add: propOf_def)
  have r: "hasRoom (localStorage emptyBrowser) STORAGE_KEY ''[]''" by code_simp
  from importFromJSON_without_posts [of "''{}''" "JObj []" JUndefined emptyBrowser] p g r
  show ?thesis by simp
qed

text \<open>
  Claim C10 as stated fails at the input \<open>null\<close>: it parses as JSON and has no \<open>posts\<close>
  array, but reading \<open>posts\<close> of \<open>null\<close> throws inside the \<^verbatim>\<open>try\<close> block, and
  \<^verbatim>\<open>importFromJSON\<close> throws \<open>Invalid JSON format\<close>.
\<close>

theorem importFromJSON_null_counterexample:
  "JSON_parse ''null'' = Some JNull
   \<and> importFromJSON emptyBrowser ''null'' = Inl (Error ''Invalid JSON format'')"
  by code_simp

lemma isJSON_posts_object: "isJSON v \<Longrightarrow> isJSON (objectLiteral [(''posts'', v)])"
  by (simp add: objectLiteral_def defineAll_def)

lemma objectLiteral_posts: "objectLiteral [(''posts'', v)] = JObj [(''posts'', v)]"
  by (simp add: objectLiteral_def defineAll_def)

text \<open>
  Claim C6. Round trip: for every stored post collection \<open>ps\<close>, \<^verbatim>\<open>exportToJSON()\<close> returns
  a text, and after \<^verbatim>\<open>importFromJSON\<close> of that text the stored collection is \<open>ps\<close> again,
  the same posts in the same order with the same field values. (If the storage refuses
  the write, the import throws and the store is left as it was.) When the storage has room
  for the serialised collection, the import returns the number of posts.
\<close>

theorem export_import_roundtrip:
  "getAllPosts b = JArr ps
   \<longrightarrow> (\<exists>json. exportToJSON b = Some json
          \<and> getAllPosts (stateAfter b (importFromJSON b json)) = JArr ps
          \<and> (hasRoom (localStorage b) STORAGE_KEY (storedText (JSON_stringify (JArr ps)))
               \<longrightarrow> (\<exists>b'. importFromJSON b json = Inr (JNum (int (length ps)), b')
                      \<and> getAllPosts b' = JArr ps)))"
proof
  assume g: "getAllPosts b = JArr ps"
  have j: "isJSON (JArr ps)" using getAllPosts_isJSON [of b] g by simp
  then have jo: "isJSON (objectLiteral [(''posts'', JArr ps)])" by (rule isJSON_posts_object)
  then obtain json where t: "JSON_stringify_indent2 (objectLiteral [(''posts'', JArr ps)]) = Some json"
    unfolding JSON_stringify_indent2_def using isJSON_serialize_Some by blast
  have p: "JSON_parse json = Some (JObj [(''posts'', JArr ps)])"
    using JSON_parse_stringify_indent2 [OF jo t] by (simp add: objectLiteral_posts)
  have ex: "exportToJSON b = Some json" using g t by (simp add: exportToJSON_def)
  have body: "importBody b json =
      (case savePosts b (JArr ps) of Inl e \<Rightarrow> Inl e | Inr b' \<Rightarrow> Inr (JNum (int (length ps)), b'))"
    using p by (simp add: importBody_def orElse_def propOf_def split: sum.splits)
  have unchanged: "getAllPosts (stateAfter b (importFromJSON b json)) = JArr ps"
  proof (cases "savePosts b (JArr ps)")
    case (Inl e)
    with body g show ?thesis by (simp add: importFromJSON_def stateAfter_def)
  next
    case (Inr b')
    with body savePosts_Inr [OF Inr j] show ?thesis by (simp add: importFromJSON_def stateAfter_def)
  qed
  have room: "\<exists>b'. importFromJSON b json = Inr (JNum (int (length ps)), b') \<and> getAllPosts b' = JArr ps"
    if "hasRoom (localStorage b) STORAGE_KEY (storedText (JSON_stringify (JArr ps)))"
  proof -
    from savePosts_hasRoom [OF that] obtain b' where b': "savePosts b (JArr ps) = Inr b'" by blast
    with body savePosts_Inr [OF b' j] show ?thesis by (simp add: importFromJSON_def)
  qed
  from ex unchanged room
  show "\<exists>json. exportToJSON b = Some json
          \<and> getAllPosts (stateAfter b (importFromJSON b json)) = JArr ps
          \<and> (hasRoom (localStorage b) STORAGE_KEY (storedText (JSON_stringify (JArr ps)))
               \<longrightarrow> (\<exists>b'. importFromJSON b json = Inr (JNum (int (length ps)), b')
                      \<and> getAllPosts b' = JArr ps))" by blast
qed

lemma oneStored_posts: "getAllPosts oneStored = JArr [JObj firstPost]"
  by code_simp

text \<open>The theorem at the store that holds the one post \<open>firstPost\<close>.\<close>

theorem export_import_roundtrip_witness:
  "\<exists>json. exportToJSON oneStored = Some json
      \<and> getAllPosts (stateAfter oneStored (importFromJSON oneStored json)) = JArr [JObj firstPost]
      \<and> (\<exists>b'. importFromJSON oneStored json = Inr (JNum 1, b')
             \<and> getAllPosts b' = JArr [JObj firstPost])"
proof -
  have r: "hasRoom (localStorage oneStored) STORAGE_KEY (storedText (JSON_stringify (JArr [JObj firstPost])))"
    by code_simp
  from export_import_roundtrip [of oneStored "[JObj firstPost]"] oneStored_posts r
  show ?thesis by simp
qed

section \<open>BlogStorage: savePost\<close>

lemma findIndexById_bound:
  "findIndexById v ps n = Inr (Some i) \<Longrightarrow> n \<le> i \<and> i < n + length ps"
proof (induction ps arbitrary: n)
  case Nil
  then show ?case by simp
next
  case (Cons p ps)
  then show ?case
    by (cases "getProp p ''id''") (fastforce split: if_splits)+
qed

lemma findIndexById_update:
  "findIndexById v ps n = Inr (Some i) \<Longrightarrow> getProp p' ''id'' = getProp (ps ! (i - n)) ''id''
   \<Longrightarrow> findIndexById v (ps[i - n := p']) n = Inr (Some i)"
proof (induction ps arbitrary: n)
  case Nil
  then show ?case by simp
next
  case (Cons p ps)
  show ?case
  proof (cases "getProp p ''id''")
    case (Inl e)
    with Cons.prems show ?thesis by simp
  next
    case (Inr w)
    show ?thesis
    proof (cases "strictEquals w v")
      case True
      with Inr Cons.prems show ?thesis by simp
    next
      case False
      with Inr Cons.prems have rec: "findIndexById v ps (Suc n) = Inr (Some i)" by simp
      then have b: "Suc n \<le> i" using findIndexById_bound by blast
      then obtain d where d: "i - n = Suc d" "i - Suc n = d" by (cases "i - n") auto
      from Cons.prems(2) d have "getProp p' ''id'' = getProp (ps ! (i - Suc n)) ''id''" by simp
      from Cons.IH [OF rec this] Inr False d show ?thesis by simp
    qed
  qed
qed

lemma savePost_update:
  assumes g: "getAllPosts b = JArr ps"
    and f: "findIndexById (propOf postData ''id'') ps 0 = Inr (Some i)"
    and s: "savePost b now postData = Inr (post, b')"
    and j: "isJSON (JObj postData)"
  shows "post = objectLiteral (spreadProps (ps ! i) @ postData @ [(''updatedAt'', JNum now)])"
    and "getAllPosts b' = JArr (ps[i := post])"
    and "i < length ps"
proof -
  let ?post = "objectLiteral (spreadProps (ps ! i) @ postData @ [(''updatedAt'', JNum now)])"
  show i: "i < length ps" using findIndexById_bound [OF f] by simp
  from s g f obtain b1 where sv: "savePosts b (JArr (ps[i := ?post])) = Inr b1"
    and r: "post = ?post" "b' = b1"
    by (auto simp: savePost_def savePostBody_def Let_def split: sum.splits if_splits)
  show "post = ?post" by (rule r(1))
  have all: "list_all isJSON ps" using getAllPosts_isJSON [of b] g by simp
  with i have "isJSON (ps ! i)" by (simp add: list_all_length)
  then have "list_all (\<lambda>kv. isJSON (snd kv)) (spreadProps (ps ! i) @ postData @ [(''updatedAt'', JNum now)])"
    using isJSON_spreadProps j by simp
  then have jp: "isJSON ?post" by (rule isJSON_objectLiteral)
  have "list_all isJSON (ps[i := ?post])"
    using all jp set_update_subset_insert [of ps i ?post] by (auto simp: list_all_iff)
  then have "isJSON (JArr (ps[i := ?post]))" by simp
  from savePosts_Inr [OF sv this] r show "getAllPosts b' = JArr (ps[i := post])" by simp
qed

lemma update_post_prop:
  assumes "isJSON (JObj kvs)" "isJSON (JObj postData)" "k \<noteq> ''updatedAt''"
  shows "getProp (objectLiteral (kvs @ postData @ [(''updatedAt'', JNum now)])) k
           = Inr (case map_of postData k of Some v \<Rightarrow> v | None \<Rightarrow> propOf kvs k)"
  using assms
  by (simp add: objectLiteral_def propOf_def map_of_defineAll3 map_add_def split: option.splits)

lemma update_post_updatedAt:
  assumes "isJSON (JObj kvs)" "isJSON (JObj postData)"
  shows "getProp (objectLiteral (kvs @ postData @ [(''updatedAt'', JNum now)])) ''updatedAt''
           = Inr (JNum now)"
  using assms
  by (simp add: objectLiteral_def propOf_def map_of_defineAll3 map_add_def split: option.splits)

lemma savePost_update_props:
  assumes g: "getAllPosts b = JArr ps"
    and o: "ps ! i = JObj kvs"
    and f: "findIndexById (propOf postData ''id'') ps 0 = Inr (Some i)"
    and j: "isJSON (JObj postData)"
    and s: "savePost b now postData = Inr (post, b')"
  shows "getAllPosts b' = JArr (ps[i := post])"
    and "i < length ps"
    and "isJSON post"
    and "getProp post ''updatedAt'' = Inr (JNum now)"
    and "\<And>k. k \<noteq> ''updatedAt'' \<Longrightarrow>
           getProp post k = Inr (case map_of postData k of Some v \<Rightarrow> v | None \<Rightarrow> propOf kvs k)"
    and "\<exists>kvs'. post = JObj kvs'"
proof -
  note u = savePost_update [OF g f s j]
  show "getAllPosts b' = JArr (ps[i := post])" by (rule u(2))
  show i: "i < length ps" by (rule u(3))
  have "isJSON (getAllPosts b')" by (rule getAllPosts_isJSON)
  with u(2) have "list_all isJSON (ps[i := post])" by simp
  moreover have "post \<in> set (ps[i := post])" using i by (simp add: set_update_memI)
  ultimately show "isJSON post" by (simp add: list_all_iff)
  have "isJSON (ps ! i)" using getAllPosts_isJSON [of b] g i by (simp add: list_all_length)
  then have jk: "isJSON (JObj kvs)" using o by simp
  from u(1) o have p: "post = objectLiteral (kvs @ postData @ [(''updatedAt'', JNum now)])"
    by simp
  show "getProp post ''updatedAt'' = Inr (JNum now)"
    unfolding p by (rule update_post_updatedAt [OF jk j])
  show "\<And>k. k \<noteq> ''updatedAt'' \<Longrightarrow>
           getProp post k = Inr (case map_of postData k of Some v \<Rightarrow> v | None \<Rightarrow> propOf kvs k)"
    unfolding p by (rule update_post_prop [OF jk j])
  show "\<exists>kvs'. post = JObj kvs'" unfolding p by (simp add: objectLiteral_def)
qed

text \<open>
  Claim C1 fails on the code: two posts with the same title created on the same UTC day
  get the same \<open>id\<close>. On the empty browser, \<^verbatim>\<open>savePost({title: 'Hello'})\<close> at
  2024-01-01T00:00:00Z and again one hour later both succeed, and the stored collection
  then holds two posts with the \<open>id\<close> \<open>hello-2024-01-01\<close>.
\<close>

theorem savePost_same_title_same_day:
  "(case savePost emptyBrowser 1704067200000 [(''title'', JStr ''Hello'')] of
      Inl e \<Rightarrow> False
    | Inr (p1, b1) \<Rightarrow>
        (case savePost b1 1704070800000 [(''title'', JStr ''Hello'')] of
           Inl e \<Rightarrow> False
         | Inr (p2, b2) \<Rightarrow>
             getAllPosts b2 = JArr [p1, p2]
             \<and> getProp p1 ''id'' = Inr (JStr ''hello-2024-01-01'')
             \<and> getProp p2 ''id'' = Inr (JStr ''hello-2024-01-01'')))"
  by code_simp




text \<open>
  Claim C4, as amended. For every post \<open>P\<close> of the collection that \<^verbatim>\<open>savePost\<close> finds by
  its \<open>id\<close>, saving it twice in succession with only the title changed (the second time
  from \<open>P\<close> or from the post the first save returned) sets \<open>updatedAt\<close> to the clock
  reading of each save and leaves \<open>id\<close> and \<open>createdAt\<close> as they were. So \<open>updatedAt\<close>
  increases strictly exactly when the clock advanced between the two saves.
\<close>

theorem savePost_twice_title_only:
  assumes g: "getAllPosts b = JArr ps"
    and o: "ps ! i = JObj kvs"
    and f: "findIndexById (propOf kvs ''id'') ps 0 = Inr (Some i)"
    and s1: "savePost b t1 (AList.update ''title'' (JStr title1) kvs) = Inr (p1, b1)"
    and d2: "d2 = AList.update ''title'' (JStr title2) kvs
             \<or> d2 = AList.update ''title'' (JStr title2) (spreadProps p1)"
    and s2: "savePost b1 t2 d2 = Inr (p2, b2)"
  shows "getProp p1 ''updatedAt'' = Inr (JNum t1) \<and> getProp p2 ''updatedAt'' = Inr (JNum t2)
       \<and> getProp p1 ''id'' = Inr (propOf kvs ''id'') \<and> getProp p2 ''id'' = Inr (propOf kvs ''id'')
       \<and> getProp p1 ''createdAt'' = Inr (propOf kvs ''createdAt'')
       \<and> getProp p2 ''createdAt'' = Inr (propOf kvs ''createdAt'')
       \<and> getAllPosts b2 = JArr (ps[i := p2])"
proof -
  let ?d1 = "AList.update ''title'' (JStr title1) kvs"
  have i0: "i < length ps" using findIndexById_bound [OF f] by simp
  have "isJSON (ps ! i)" using getAllPosts_isJSON [of b] g i0 by (simp add: list_all_length)
  then have jk: "isJSON (JObj kvs)" using o by simp
  have j1: "isJSON (JObj ?d1)" by (rule isJSON_update [OF jk]) simp
  have id1: "propOf ?d1 ''id'' = propOf kvs ''id''" by (simp add: propOf_update_other)
  note u1 = savePost_update_props [OF g o _ j1 s1]
  have f1: "findIndexById (propOf ?d1 ''id'') ps 0 = Inr (Some i)" using f id1 by simp
  have a1: "getProp p1 ''updatedAt'' = Inr (JNum t1)" by (rule u1(4) [OF f1])
  have k1: "getProp p1 k = Inr (propOf kvs k)" if "k \<noteq> ''updatedAt''" "k \<noteq> ''title''" for k
    using u1(5) [OF f1 that(1)] that(2)
    by (auto simp: update_conv' propOf_def split: option.splits)
  from u1(6) [OF f1] obtain kvs1 where p1: "p1 = JObj kvs1" by blast
  have jp1: "isJSON (JObj kvs1)" using u1(3) [OF f1] p1 by simp
  have g1: "getAllPosts b1 = JArr (ps[i := p1])" by (rule u1(1) [OF f1])
  have o1: "ps[i := p1] ! i = JObj kvs1" using i0 p1 by simp
  have pk1: "propOf kvs1 k = propOf kvs k" if "k \<noteq> ''updatedAt''" "k \<noteq> ''title''" for k
    using k1 [OF that] p1 by simp
  have j2: "isJSON (JObj d2)"
  proof -
    have "isJSON (JObj (AList.update ''title'' (JStr title2) kvs))"
      by (rule isJSON_update [OF jk]) simp
    moreover have "isJSON (JObj (AList.update ''title'' (JStr title2) (spreadProps p1)))"
      unfolding p1 spreadProps.simps by (rule isJSON_update [OF jp1]) simp
    ultimately show ?thesis using d2 by blast
  qed
  have md: "map_of d2 k = map_of kvs k \<or> map_of d2 k = map_of kvs1 k" if "k \<noteq> ''title''" for k
  proof -
    have "map_of (AList.update ''title'' (JStr title2) kvs) k = map_of kvs k"
      "map_of (AList.update ''title'' (JStr title2) (spreadProps p1)) k = map_of kvs1 k"
      using that p1 by (simp_all add: update_conv')
    with d2 show ?thesis by metis
  qed
  have pd2: "propOf d2 k = propOf kvs k" if "k \<noteq> ''updatedAt''" "k \<noteq> ''title''" for k
    using md [OF that(2)]
  proof
    assume "map_of d2 k = map_of kvs k"
    then show ?thesis by (simp add: propOf_def)
  next
    assume "map_of d2 k = map_of kvs1 k"
    then have "propOf d2 k = propOf kvs1 k" by (simp add: propOf_def)
    with pk1 [OF that] show ?thesis by simp
  qed
  have m2: "(case map_of d2 k of Some v \<Rightarrow> v | None \<Rightarrow> propOf kvs1 k) = propOf kvs k"
    if "k \<noteq> ''updatedAt''" "k \<noteq> ''title''" for k
  proof (cases "map_of d2 k")
    case None
    with pk1 [OF that] show ?thesis by simp
  next
    case (Some v)
    then have "propOf d2 k = v" by (simp add: propOf_def)
    with pd2 [OF that] Some show ?thesis by simp
  qed
  have id2: "propOf d2 ''id'' = propOf kvs ''id''"
    by (rule pd2) simp_all
  have same: "getProp p1 ''id'' = getProp (ps ! (i - 0)) ''id''"
    using k1 [of "''id''"] o by simp
  have f2: "findIndexById (propOf d2 ''id'') (ps[i := p1]) 0 = Inr (Some i)"
    using findIndexById_update [OF f same] id2 by simp
  note u2 = savePost_update_props [OF g1 o1 f2 j2 s2]
  have a2: "getProp p2 ''updatedAt'' = Inr (JNum t2)" by (rule u2(4))
  have k2: "getProp p2 k = Inr (propOf kvs k)" if "k \<noteq> ''updatedAt''" "k \<noteq> ''title''" for k
    using u2(5) [OF that(1)] m2 [OF that] by simp
  have g2: "getAllPosts b2 = JArr (ps[i := p2])" using u2(1) by simp
  from a1 a2 k1 [of "''id''"] k2 [of "''id''"] k1 [of "''createdAt''"] k2 [of "''createdAt''"] g2
  show ?thesis by simp
qed

text \<open>
  The theorem at the store holding \<open>firstPost\<close>, saved with the titles \<open>Second\<close> and
  \<open>Third\<close> one minute apart.
\<close>

theorem savePost_twice_title_only_witness:
  "\<exists>p1 b1 p2 b2.
     savePost oneStored 1704067260000 (AList.update ''title'' (JStr ''Second'') firstPost) = Inr (p1, b1)
   \<and> savePost b1 1704067320000 (AList.update ''title'' (JStr ''Third'') (spreadProps p1)) = Inr (p2, b2)
   \<and> getProp p1 ''updatedAt'' = Inr (JNum 1704067260000)
   \<and> getProp p2 ''updatedAt'' = Inr (JNum 1704067320000)
   \<and> getProp p1 ''id'' = Inr (JStr ''first-2024-01-01'')
   \<and> getProp p2 ''id'' = Inr (JStr ''first-2024-01-01'')
   \<and> getProp p1 ''createdAt'' = Inr (JNum 1704067200000)
   \<and> getProp p2 ''createdAt'' = Inr (JNum 1704067200000)
   \<and> getAllPosts b2 = JArr [p2]"
proof -
  let ?d1 = "AList.update ''title'' (JStr ''Second'') firstPost"
  define r1 where "r1 = savePost oneStored 1704067260000 ?d1"
  define p1 where "p1 = fst (projr r1)"
  define b1 where "b1 = snd (projr r1)"
  have "\<not> isl r1" unfolding r1_def by code_simp
  then have s1: "savePost oneStored 1704067260000 ?d1 = Inr (p1, b1)"
    by (simp add: r1_def p1_def b1_def)
  let ?d2 = "AList.update ''title'' (JStr ''Third'') (spreadProps p1)"
  define r2 where "r2 = savePost b1 1704067320000 ?d2"
  have "\<not> isl r2" unfolding r2_def b1_def p1_def r1_def by code_simp
  then have s2: "savePost b1 1704067320000 ?d2 = Inr (fst (projr r2), snd (projr r2))"
    by (simp add: r2_def)
  have f: "findIndexById (propOf firstPost ''id'') [JObj firstPost] 0 = Inr (Some 0)" by code_simp
  from savePost_twice_title_only [OF oneStored_posts _ f s1 _ s2, of "''Third''"]
  have "getProp p1 ''updatedAt'' = Inr (JNum 1704067260000)
   \<and> getProp (fst (projr r2)) ''updatedAt'' = Inr (JNum 1704067320000)
   \<and> getProp p1 ''id'' = Inr (JStr ''first-2024-01-01'')
   \<and> getProp (fst (projr r2)) ''id'' = Inr (JStr ''first-2024-01-01'')
   \<and> getProp p1 ''createdAt'' = Inr (JNum 1704067200000)
   \<and> getProp (fst (projr r2)) ''createdAt'' = Inr (JNum 1704067200000)
   \<and> getAllPosts (snd (projr r2)) = JArr [fst (projr r2)]"
    by (simp add: firstPost_def propOf_def)
  with s1 s2 show ?thesis by blast
qed

text \<open>
  Claim C4 as stated fails when both saves read the same clock value: \<open>updatedAt\<close> is
  1704067260000 after the first save and after the second.
\<close>

theorem savePost_same_millisecond_counterexample:
  "(case savePost oneStored 1704067260000 (AList.update ''title'' (JStr ''Second'') firstPost) of
      Inl e \<Rightarrow> False
    | Inr (p1, b1) \<Rightarrow>
        (case savePost b1 1704067260000 (AList.update ''title'' (JStr ''Third'') (spreadProps p1)) of
           Inl e \<Rightarrow> False
         | Inr (p2, b2) \<Rightarrow>
             getProp p1 ''updatedAt'' = Inr (JNum 1704067260000)
             \<and> getProp p2 ''updatedAt'' = Inr (JNum 1704067260000)
             \<and> getProp p2 ''title'' = Inr (JStr ''Third'')))"
  by code_simp

end
